theory Spec2Isabelle
  imports Complex_Main
begin

section \<open>Text: strings, whitespace, trimming, lower-casing\<close>

text \<open>
  A JavaScript string is a sequence of UTF-16 code units. A \<^typ>\<open>char\<close> stands for a
  code unit below 0x100 (the Latin-1 range); text with larger code units is outside the
  model. \<open>isSpace\<close> is the class \<^verbatim>\<open>\s\<close> of a regular expression, which is also
  the set that \<^verbatim>\<open>String.prototype.trim\<close> strips, cut down to that range.
\<close>

definition isSpace :: "char \<Rightarrow> bool" where
  "isSpace c = (c \<in> {CHR 0x09, CHR 0x0A, CHR 0x0B, CHR 0x0C, CHR 0x0D, CHR 0x20, CHR 0xA0})"

definition trim :: "string \<Rightarrow> string" where
  "trim s = rev (dropWhile isSpace (rev (dropWhile isSpace s)))"

definition lowerChar :: "char \<Rightarrow> char" where
  "lowerChar c =
     (let n = (of_char c :: nat)
      in if (65 \<le> n \<and> n \<le> 90) \<or> (192 \<le> n \<and> n \<le> 222 \<and> n \<noteq> 215)
         then char_of (n + 32) else c)"

definition toLowerCase :: "string \<Rightarrow> string" where
  "toLowerCase s = map lowerChar s"

section \<open>The regular expressions of the repair step\<close>

text \<open>
  Every regular expression of \<^verbatim>\<open>processGeminiResponse\<close> is a sequence of single
  characters or character classes, each taken once, or under \<^verbatim>\<open>*\<close> or \<^verbatim>\<open>+\<close>,
  with an optional \<^verbatim>\<open>$\<close> at the end. \<open>matchItems\<close> is the backtracking matcher
  of the language on that fragment: a quantified class first takes the longest run and
  gives characters back one at a time until the rest of the expression matches. The
  result lists the text each item matched.
\<close>

datatype quant = One | Star | Plus

type_synonym item = "(char \<Rightarrow> bool) \<times> quant"

fun firstSome :: "'a option list \<Rightarrow> 'a option" where
  "firstSome [] = None"
| "firstSome (None # xs) = firstSome xs"
| "firstSome (Some x # xs) = Some x"

fun matchItems :: "item list \<Rightarrow> bool \<Rightarrow> string \<Rightarrow> string list option" where
  "matchItems [] atEnd s = (if atEnd \<and> s \<noteq> [] then None else Some [])"
| "matchItems ((c, One) # r) atEnd s =
     (case s of
        [] \<Rightarrow> None
      | x # xs \<Rightarrow> if c x then map_option ((#) [x]) (matchItems r atEnd xs) else None)"
| "matchItems ((c, Star) # r) atEnd s =
     firstSome (map (\<lambda>k. map_option ((#) (take k s)) (matchItems r atEnd (drop k s)))
                    (rev [0..<Suc (length (takeWhile c s))]))"
| "matchItems ((c, Plus) # r) atEnd s =
     firstSome (map (\<lambda>k. map_option ((#) (take k s)) (matchItems r atEnd (drop k s)))
                    (rev [1..<Suc (length (takeWhile c s))]))"

text \<open>
  \<^verbatim>\<open>s.replace(re, template)\<close> with the \<^verbatim>\<open>g\<close> flag: scan from the left, replace each
  match by the template applied to its pieces and go on behind the match; where nothing
  matches, keep the character. The first argument counts the characters of the last match
  still to be skipped.
\<close>

fun replaceAll :: "item list \<Rightarrow> bool \<Rightarrow> (string list \<Rightarrow> string) \<Rightarrow> nat \<Rightarrow> string \<Rightarrow> string" where
  "replaceAll re atEnd tpl (Suc k) (x # xs) = replaceAll re atEnd tpl k xs"
| "replaceAll re atEnd tpl 0 (x # xs) =
     (case matchItems re atEnd (x # xs) of
        None \<Rightarrow> x # replaceAll re atEnd tpl 0 xs
      | Some ps \<Rightarrow>
          (case length (concat ps) of
             0 \<Rightarrow> tpl ps @ x # replaceAll re atEnd tpl 0 xs
           | Suc n \<Rightarrow> tpl ps @ replaceAll re atEnd tpl n xs))"
| "replaceAll re atEnd tpl k [] =
     (case matchItems re atEnd [] of None \<Rightarrow> [] | Some ps \<Rightarrow> if k = 0 then tpl ps else [])"

text \<open>\<^verbatim>\<open>s.match(re)\<close> without the \<^verbatim>\<open>g\<close> flag: the leftmost match, or null.\<close>

fun firstMatch :: "item list \<Rightarrow> bool \<Rightarrow> string \<Rightarrow> string option" where
  "firstMatch re atEnd [] = map_option concat (matchItems re atEnd [])"
| "firstMatch re atEnd (x # xs) =
     (case matchItems re atEnd (x # xs) of
        Some ps \<Rightarrow> Some (concat ps)
      | None \<Rightarrow> firstMatch re atEnd xs)"

definition lit :: "char \<Rightarrow> item" where
  "lit c = ((\<lambda>x. x = c), One)"

definition anyOf :: "string \<Rightarrow> char \<Rightarrow> bool" where
  "anyOf cs x = (x \<in> set cs)"

definition noneOf :: "string \<Rightarrow> char \<Rightarrow> bool" where
  "noneOf cs x = (x \<notin> set cs)"

definition dq :: char where
  "dq = CHR 0x22"

text \<open>\<^verbatim>\<open>/```json\s*/g\<close>\<close>
definition reFenceOpen :: "item list" where
  "reFenceOpen = map lit ''```json'' @ [(isSpace, Star)]"

text \<open>\<^verbatim>\<open>/```\s*$/g\<close>\<close>
definition reFenceClose :: "item list" where
  "reFenceClose = map lit ''```'' @ [(isSpace, Star)]"

text \<open>\<^verbatim>\<open>/\{[\s\S]*\}/\<close>\<close>
definition reBraces :: "item list" where
  "reBraces = [lit CHR ''{'', ((\<lambda>_. True), Star), lit CHR ''}'']"

text \<open>\<^verbatim>\<open>/("[^"]*")\s*[^,:{\[\]\}]+([:,\{\[\]\}])/g\<close>, replaced by \<^verbatim>\<open>$1$2\<close>\<close>
definition reInterleaved :: "item list" where
  "reInterleaved =
     [lit dq, (noneOf [dq], Star), lit dq, (isSpace, Star),
      (noneOf '',:{[]}'', Plus), (anyOf '':,{[]}'', One)]"

definition tplInterleaved :: "string list \<Rightarrow> string" where
  "tplInterleaved ps = ps ! 0 @ ps ! 1 @ ps ! 2 @ ps ! 5"

text \<open>\<^verbatim>\<open>/"([^"]+)",(\s*[\},\]])/g\<close>, replaced by \<^verbatim>\<open>"$1": 0,$2\<close>\<close>
definition reMissingValueA :: "item list" where
  "reMissingValueA =
     [lit dq, (noneOf [dq], Plus), lit dq, lit CHR '','', (isSpace, Star), (anyOf ''},]'', One)]"

text \<open>\<^verbatim>\<open>/"([^"]+)",(\s*")/g\<close>, replaced by \<^verbatim>\<open>"$1": 0,$2\<close>\<close>
definition reMissingValueB :: "item list" where
  "reMissingValueB =
     [lit dq, (noneOf [dq], Plus), lit dq, lit CHR '','', (isSpace, Star), lit dq]"

definition tplMissingValue :: "string list \<Rightarrow> string" where
  "tplMissingValue ps = [dq] @ ps ! 1 @ [dq] @ '': 0,'' @ ps ! 4 @ ps ! 5"

text \<open>\<^verbatim>\<open>/,(\s*[\}\]])/g\<close>, replaced by \<^verbatim>\<open>$1\<close>\<close>
definition reTrailingComma :: "item list" where
  "reTrailingComma = [lit CHR '','', (isSpace, Star), (anyOf ''}]'', One)]"

definition tplTrailingComma :: "string list \<Rightarrow> string" where
  "tplTrailingComma ps = ps ! 1 @ ps ! 2"

section \<open>The cleanup steps of processGeminiResponse\<close>

definition stripFences :: "string \<Rightarrow> string" where
  "stripFences s =
     replaceAll reFenceClose True (\<lambda>_. []) 0 (replaceAll reFenceOpen False (\<lambda>_. []) 0 s)"

definition extractBraces :: "string \<Rightarrow> string" where
  "extractBraces s = (case firstMatch reBraces False s of Some m \<Rightarrow> m | None \<Rightarrow> s)"

definition removeInterleaved :: "string \<Rightarrow> string" where
  "removeInterleaved s = replaceAll reInterleaved False tplInterleaved 0 s"

definition patchMissingValues :: "string \<Rightarrow> string" where
  "patchMissingValues s =
     replaceAll reMissingValueB False tplMissingValue 0
       (replaceAll reMissingValueA False tplMissingValue 0 s)"

definition stripTrailingCommas :: "string \<Rightarrow> string" where
  "stripTrailingCommas s = replaceAll reTrailingComma False tplTrailingComma 0 s"

text \<open>The text before the trailing-comma cleanup, and the cleaned response.\<close>

definition beforeTrailingCommas :: "string \<Rightarrow> string" where
  "beforeTrailingCommas s = patchMissingValues (removeInterleaved (extractBraces (stripFences s)))"

definition cleanResponse :: "string \<Rightarrow> string" where
  "cleanResponse s = stripTrailingCommas (beforeTrailingCommas s)"

section \<open>Values\<close>

text \<open>
  \<^verbatim>\<open>CalorieBreakdownResponse\<close> and \<^verbatim>\<open>FoodItem\<close> are compile-time annotations: at run
  time a candidate is whatever \<^verbatim>\<open>JSON.parse\<close> made of the reply, so the model works on
  JSON values. A number is the exact value of a finite double, or an infinity, which the
  parser returns for a literal beyond the range of doubles; minus zero behaves as zero in
  everything the program does. An array carries the named properties that were written on
  it (none when it comes out of the parser); an object lists its own properties in the order
  of the language. Every object has the prototype of plain objects, every array that of
  arrays, and no property holds a function.
\<close>

datatype num = NegInf | Fin rat | PosInf

datatype json =
    JNull
  | JBool bool
  | JNum num
  | JStr string
  | JArr "json list" "(string \<times> json) list"
  | JObj "(string \<times> json) list"

datatype error = TypeError | SyntaxError

text \<open>
  What the program takes from the library of the language: \<^verbatim>\<open>JSON.parse\<close> (\<open>None\<close>
  when it throws), the decimal text of a finite number, and the number a string converts
  to (\<open>None\<close> when it is not a number).
\<close>

record runtime =
  parseJSON :: "string \<Rightarrow> json option"
  numberToString :: "rat \<Rightarrow> string"
  stringToNumber :: "string \<Rightarrow> num option"

fun truthy :: "json \<Rightarrow> bool" where
  "truthy JNull = False"
| "truthy (JBool b) = b"
| "truthy (JNum x) = (x \<noteq> Fin 0)"
| "truthy (JStr s) = (s \<noteq> [])"
| "truthy (JArr xs ps) = True"
| "truthy (JObj ps) = True"

text \<open>\<^verbatim>\<open>v.name\<close> for the names the program reads; \<open>None\<close> is \<^verbatim>\<open>undefined\<close>.\<close>

fun getProp :: "json \<Rightarrow> string \<Rightarrow> error + json option" where
  "getProp JNull k = Inl TypeError"
| "getProp (JObj ps) k = Inr (map_of ps k)"
| "getProp (JArr xs ps) k = Inr (map_of ps k)"
| "getProp v k = Inr None"

fun assign :: "(string \<times> json) list \<Rightarrow> string \<Rightarrow> json \<Rightarrow> (string \<times> json) list" where
  "assign [] k v = [(k, v)]"
| "assign ((k', v') # ps) k v = (if k' = k then (k', v) # ps else (k', v') # assign ps k v)"

text \<open>\<^verbatim>\<open>v.name = x\<close> in a module, which is strict code: writing on a primitive throws.\<close>

fun setProp :: "json \<Rightarrow> string \<Rightarrow> json \<Rightarrow> error + json" where
  "setProp (JObj ps) k v = Inr (JObj (assign ps k v))"
| "setProp (JArr xs ps) k v = Inr (JArr xs (assign ps k v))"
| "setProp u k v = Inl TypeError"

text \<open>\<^verbatim>\<open>x || d\<close> on a property that may be undefined.\<close>

definition orElse :: "json option \<Rightarrow> json \<Rightarrow> json" where
  "orElse x d = (case x of None \<Rightarrow> d | Some v \<Rightarrow> if truthy v then v else d)"

definition numToString :: "runtime \<Rightarrow> num \<Rightarrow> string" where
  "numToString rt n =
     (case n of NegInf \<Rightarrow> ''-Infinity'' | Fin x \<Rightarrow> numberToString rt x | PosInf \<Rightarrow> ''Infinity'')"

text \<open>
  The string of a value, as a template literal takes it. An object is asked for its
  \<open>toString\<close> and \<open>valueOf\<close>: an own property of either name holds no function and is
  passed over, the inherited \<open>valueOf\<close> returns the object itself, so an object with an own
  \<open>toString\<close> has no primitive value and the conversion throws; any other object is
  \<^verbatim>\<open>[object Object]\<close>. An array joins the strings of its elements with commas, null
  counting as the empty string.
\<close>

fun jsToString :: "runtime \<Rightarrow> json \<Rightarrow> error + string"
  and joinElements :: "runtime \<Rightarrow> json list \<Rightarrow> error + string" where
  "jsToString rt JNull = Inr ''null''"
| "jsToString rt (JBool b) = Inr (if b then ''true'' else ''false'')"
| "jsToString rt (JNum n) = Inr (numToString rt n)"
| "jsToString rt (JStr s) = Inr s"
| "jsToString rt (JObj ps) =
     (if map_of ps ''toString'' \<noteq> None then Inl TypeError else Inr ''[object Object]'')"
| "jsToString rt (JArr xs ps) =
     (if map_of ps ''toString'' \<noteq> None then Inl TypeError
      else if map_of ps ''join'' \<noteq> None then Inr ''[object Array]''
      else joinElements rt xs)"
| "joinElements rt [] = Inr []"
| "joinElements rt (x # xs) =
     (case (if x = JNull then Inr [] else jsToString rt x) of
        Inl e \<Rightarrow> Inl e
      | Inr s \<Rightarrow>
          if xs = [] then Inr s
          else (case joinElements rt xs of Inl e \<Rightarrow> Inl e | Inr t \<Rightarrow> Inr (s @ '','' @ t)))"

text \<open>
  \<^verbatim>\<open>a > b\<close>. Both operands are made primitive, an object or array by its string as
  above; two strings are compared by their code units, anything else as numbers, and a
  comparison with something that is not a number is false.
\<close>

definition toPrimitive :: "runtime \<Rightarrow> json \<Rightarrow> error + json" where
  "toPrimitive rt v =
     (case v of
        JObj ps \<Rightarrow> (case jsToString rt v of Inl e \<Rightarrow> Inl e | Inr s \<Rightarrow> Inr (JStr s))
      | JArr xs ps \<Rightarrow> (case jsToString rt v of Inl e \<Rightarrow> Inl e | Inr s \<Rightarrow> Inr (JStr s))
      | _ \<Rightarrow> Inr v)"

definition toNumber :: "runtime \<Rightarrow> json \<Rightarrow> num option" where
  "toNumber rt v =
     (case v of
        JNull \<Rightarrow> Some (Fin 0)
      | JBool b \<Rightarrow> Some (Fin (if b then 1 else 0))
      | JNum n \<Rightarrow> Some n
      | JStr s \<Rightarrow> stringToNumber rt s
      | _ \<Rightarrow> None)"

fun numLess :: "num \<Rightarrow> num \<Rightarrow> bool" where
  "numLess NegInf b = (b \<noteq> NegInf)"
| "numLess (Fin x) NegInf = False"
| "numLess (Fin x) (Fin y) = (x < y)"
| "numLess (Fin x) PosInf = True"
| "numLess PosInf b = False"

fun strLess :: "string \<Rightarrow> string \<Rightarrow> bool" where
  "strLess [] [] = False"
| "strLess [] (y # ys) = True"
| "strLess (x # xs) [] = False"
| "strLess (x # xs) (y # ys) =
     ((of_char x :: nat) < of_char y \<or> (x = y \<and> strLess xs ys))"

definition jsGreater :: "runtime \<Rightarrow> json \<Rightarrow> json \<Rightarrow> error + bool" where
  "jsGreater rt a b =
     (case toPrimitive rt a of
        Inl e \<Rightarrow> Inl e
      | Inr pa \<Rightarrow>
          (case toPrimitive rt b of
             Inl e \<Rightarrow> Inl e
           | Inr pb \<Rightarrow>
               Inr (case (pa, pb) of
                      (JStr x, JStr y) \<Rightarrow> strLess y x
                    | _ \<Rightarrow>
                        (case (toNumber rt pa, toNumber rt pb) of
                           (Some x, Some y) \<Rightarrow> numLess y x
                         | _ \<Rightarrow> False))))"

definition digit :: "nat \<Rightarrow> char" where
  "digit d = char_of (48 + d)"

fun showNat :: "nat \<Rightarrow> string" where
  "showNat n = (if n < 10 then [digit n] else showNat (n div 10) @ [digit (n mod 10)])"

declare showNat.simps [simp del]

section \<open>The deterministic reducer\<close>

text \<open>
  What \<^verbatim>\<open>JSON.stringify\<close> writes of a value: an infinity is written as null, and the
  named properties of an array are not written.
\<close>

fun written :: "json \<Rightarrow> json" where
  "written JNull = JNull"
| "written (JBool b) = JBool b"
| "written (JNum n) = (case n of Fin x \<Rightarrow> JNum (Fin x) | _ \<Rightarrow> JNull)"
| "written (JStr s) = JStr s"
| "written (JArr xs ps) = JArr (map written xs) []"
| "written (JObj ps) = JObj (map (\<lambda>(k, v). (k, written v)) ps)"

text \<open>
  The key of a candidate is \<^verbatim>\<open>JSON.stringify\<close> of the simplified object
  \<^verbatim>\<open>{mealDescription, totalEstimatedCalories, items: [{itemName, calories}]}\<close>. A
  property that is undefined is left out, and two simplified objects have the same text
  exactly when they agree in what is written of each property, so the key is modelled by
  what is written of the properties.
\<close>

type_synonym simplifiedItem = "json option \<times> json option"

type_synonym signature = "json option \<times> json option \<times> simplifiedItem list option"

definition simplifyItem :: "json \<Rightarrow> error + simplifiedItem" where
  "simplifyItem it =
     (case getProp it ''itemName'' of
        Inl e \<Rightarrow> Inl e
      | Inr n \<Rightarrow>
          (case getProp it ''calories'' of
             Inl e \<Rightarrow> Inl e
           | Inr c \<Rightarrow> Inr (map_option written n, map_option written c)))"

fun mapE :: "('a \<Rightarrow> error + 'b) \<Rightarrow> 'a list \<Rightarrow> error + 'b list" where
  "mapE f [] = Inr []"
| "mapE f (x # xs) =
     (case f x of
        Inl e \<Rightarrow> Inl e
      | Inr y \<Rightarrow> (case mapE f xs of Inl e \<Rightarrow> Inl e | Inr ys \<Rightarrow> Inr (y # ys)))"

text \<open>
  \<^verbatim>\<open>result.items?.map(...)\<close>: undefined when \<open>items\<close> is undefined or null, the mapped
  array when it is an array, and a TypeError on anything else, which has no method
  \<open>map\<close>, as on an array on which a property of that name was written.
\<close>

fun simplifyItems :: "json option \<Rightarrow> error + simplifiedItem list option" where
  "simplifyItems None = Inr None"
| "simplifyItems (Some JNull) = Inr None"
| "simplifyItems (Some (JArr xs ps)) =
     (if map_of ps ''map'' \<noteq> None then Inl TypeError
      else (case mapE simplifyItem xs of Inl e \<Rightarrow> Inl e | Inr ys \<Rightarrow> Inr (Some ys)))"
| "simplifyItems (Some v) = Inl TypeError"

definition signatureOf :: "json \<Rightarrow> error + signature" where
  "signatureOf r =
     (case getProp r ''mealDescription'' of
        Inl e \<Rightarrow> Inl e
      | Inr d \<Rightarrow>
          (case getProp r ''totalEstimatedCalories'' of
             Inl e \<Rightarrow> Inl e
           | Inr t \<Rightarrow>
               (case getProp r ''items'' of
                  Inl e \<Rightarrow> Inl e
                | Inr its \<Rightarrow>
                    (case simplifyItems its of
                       Inl e \<Rightarrow> Inl e
                     | Inr ys \<Rightarrow> Inr (map_option written d, map_option written t, ys)))))"

text \<open>
  The \<^verbatim>\<open>Map\<close> from key to \<^verbatim>\<open>{count, result}\<close>, in insertion order. The stored result
  is a reference to a candidate: the index of that candidate in \<open>results\<close>.
\<close>

type_synonym counts = "(signature \<times> nat \<times> nat) list"

fun bump :: "counts \<Rightarrow> signature \<Rightarrow> nat \<Rightarrow> counts" where
  "bump [] k i = [(k, 1, i)]"
| "bump ((k', c, j) # m) k i =
     (if k' = k then (k', Suc c, j) # m else (k', c, j) # bump m k i)"

fun countResults :: "json list \<Rightarrow> nat \<Rightarrow> counts \<Rightarrow> error + counts" where
  "countResults [] i m = Inr m"
| "countResults (r # rs) i m =
     (case signatureOf r of Inl e \<Rightarrow> Inl e | Inr k \<Rightarrow> countResults rs (Suc i) (bump m k i))"

text \<open>The loop over the entries: \<open>(maxCount, consensusResult)\<close>, the latter as an index.\<close>

fun mostFrequent :: "counts \<Rightarrow> nat \<times> nat option \<Rightarrow> nat \<times> nat option" where
  "mostFrequent [] acc = acc"
| "mostFrequent ((k, c, j) # m) (mx, w) =
     mostFrequent m (if c > mx then (c, Some j) else (mx, w))"

text \<open>The loop of the tie-break: \<open>(highestConfidence, consensusResult)\<close>.\<close>

fun highestConfidence ::
  "runtime \<Rightarrow> json list \<Rightarrow> nat \<Rightarrow> json \<times> nat option \<Rightarrow> error + json \<times> nat option" where
  "highestConfidence rt [] i acc = Inr acc"
| "highestConfidence rt (r # rs) i (hi, w) =
     (case getProp r ''confidenceScore'' of
        Inl e \<Rightarrow> Inl e
      | Inr s \<Rightarrow>
          (let confidence = orElse s (JNum (Fin 0))
           in case jsGreater rt confidence hi of
                Inl e \<Rightarrow> Inl e
              | Inr g \<Rightarrow>
                  highestConfidence rt rs (Suc i) (if g then (confidence, Some i) else (hi, w))))"

definition consensusNote :: "nat \<Rightarrow> nat \<Rightarrow> string" where
  "consensusNote k n = '' (Based on consensus from '' @ showNat k @ ''/'' @ showNat n @ '' analyses)''"

text \<open>
  The reducer returns the candidate it picked, after writing its \<open>assumptionsMade\<close>: the
  index of that candidate in \<open>results\<close> and its value after the write. With no candidate
  at all \<open>consensusResult\<close> is undefined and reading its property throws.
\<close>

definition findConsensusResultFallback :: "runtime \<Rightarrow> json list \<Rightarrow> error + nat \<times> json" where
  "findConsensusResultFallback rt results =
     (case countResults results 0 [] of
        Inl e \<Rightarrow> Inl e
      | Inr m \<Rightarrow>
          (case mostFrequent m (0, if results = [] then None else Some 0) of
             (maxCount, w) \<Rightarrow>
               (case (if maxCount = 1
                      then highestConfidence rt results 0 (JNum (Fin 0), w)
                      else Inr (JNum (Fin 0), w)) of
                  Inl e \<Rightarrow> Inl e
                | Inr (hi, None) \<Rightarrow> Inl TypeError
                | Inr (hi, Some i) \<Rightarrow>
                    (case getProp (results ! i) ''assumptionsMade'' of
                       Inl e \<Rightarrow> Inl e
                     | Inr am \<Rightarrow>
                         (case jsToString rt (orElse am (JStr [])) of
                            Inl e \<Rightarrow> Inl e
                          | Inr old \<Rightarrow>
                              (case setProp (results ! i) ''assumptionsMade''
                                      (JStr (trim (old @ consensusNote maxCount (length results)))) of
                                 Inl e \<Rightarrow> Inl e
                               | Inr c \<Rightarrow> Inr (i, c)))))))"

section \<open>The model collaborator and the pipeline\<close>

text \<open>
  One call of the model is \<^verbatim>\<open>await model.generateContent(...)\<close> followed by
  \<^verbatim>\<open>.response.text()\<close>: it throws or it yields a text. A run is given by the outcome of
  its calls in the order they are made; the functions below take the number of calls made so
  far and return it with their result. The prompts are built from strings without failing
  and the collaborator is free to answer anything, so they are not modelled. Building the
  client from a key that is present is taken not to throw.
\<close>

datatype call = Throws | Replies string

type_synonym collaborator = "nat \<Rightarrow> call"

definition validateFoodImage :: "collaborator \<Rightarrow> nat \<Rightarrow> bool \<times> nat" where
  "validateFoodImage orc n =
     (case orc n of
        Throws \<Rightarrow> (True, Suc n)
      | Replies t \<Rightarrow> (toLowerCase (trim t) = ''true'', Suc n))"

text \<open>The cleanup of the reply to the validation prompt: fences and braces only.\<close>

definition cleanValidation :: "string \<Rightarrow> string" where
  "cleanValidation s = extractBraces (stripFences s)"

definition parseOrThrow :: "runtime \<Rightarrow> string \<Rightarrow> error + json" where
  "parseOrThrow rt s = (case parseJSON rt s of None \<Rightarrow> Inl SyntaxError | Some v \<Rightarrow> Inr v)"

definition validateJsonFormat ::
  "runtime \<Rightarrow> collaborator \<Rightarrow> nat \<Rightarrow> string \<Rightarrow> (error + json) \<times> nat" where
  "validateJsonFormat rt orc n response =
     (case orc n of
        Throws \<Rightarrow> (parseOrThrow rt response, Suc n)
      | Replies t \<Rightarrow>
          (case parseJSON rt (cleanValidation t) of
             Some v \<Rightarrow> (Inr v, Suc n)
           | None \<Rightarrow> (parseOrThrow rt response, Suc n)))"

text \<open>The result is the parsed value, or null when the validation threw.\<close>

definition processGeminiResponse :: "runtime \<Rightarrow> collaborator \<Rightarrow> nat \<Rightarrow> string \<Rightarrow> json \<times> nat" where
  "processGeminiResponse rt orc n responseText =
     (case validateJsonFormat rt orc n (cleanResponse responseText) of
        (Inl e, n') \<Rightarrow> (JNull, n')
      | (Inr v, n') \<Rightarrow> (v, n'))"

text \<open>
  The body of the sampling loop: the candidate it pushes, if any. A call that throws is
  caught; a processed response that is falsy is not pushed.
\<close>

definition analysisAttempt :: "runtime \<Rightarrow> collaborator \<Rightarrow> nat \<Rightarrow> json option \<times> nat" where
  "analysisAttempt rt orc n =
     (case orc n of
        Throws \<Rightarrow> (None, Suc n)
      | Replies t \<Rightarrow>
          (case processGeminiResponse rt orc (Suc n) t of
             (v, n') \<Rightarrow> (if truthy v then Some v else None, n')))"

definition NUM_ANALYSES :: nat where
  "NUM_ANALYSES = 5"

text \<open>The loop, with the number of iterations left and \<open>analysisResults\<close> so far.\<close>

fun runAnalyses :: "runtime \<Rightarrow> collaborator \<Rightarrow> nat \<Rightarrow> nat \<Rightarrow> json list \<Rightarrow> json list \<times> nat" where
  "runAnalyses rt orc 0 n acc = (acc, n)"
| "runAnalyses rt orc (Suc k) n acc =
     (case analysisAttempt rt orc n of
        (None, n') \<Rightarrow> runAnalyses rt orc k n' acc
      | (Some v, n') \<Rightarrow> runAnalyses rt orc k n' (acc @ [v]))"

definition fallbackResult :: "runtime \<Rightarrow> json list \<Rightarrow> error + json" where
  "fallbackResult rt results =
     (case findConsensusResultFallback rt results of Inl e \<Rightarrow> Inl e | Inr (i, c) \<Rightarrow> Inr c)"

definition mergeNote :: "nat \<Rightarrow> string" where
  "mergeNote n = '' (Consensus generated from '' @ showNat n @ '' analyses using AI)''"

text \<open>
  Everything in \<^verbatim>\<open>findConsensusResultWithModel\<close> is inside a \<^verbatim>\<open>try\<close> whose handler
  returns the reducer's result: also when converting the merged \<open>assumptionsMade\<close> to
  a string, or writing it, throws. What the reducer throws there is not caught.
\<close>

definition findConsensusResultWithModel ::
  "runtime \<Rightarrow> collaborator \<Rightarrow> nat \<Rightarrow> json list \<Rightarrow> (error + json) \<times> nat" where
  "findConsensusResultWithModel rt orc n results =
     (case orc n of
        Throws \<Rightarrow> (fallbackResult rt results, Suc n)
      | Replies t \<Rightarrow>
          (case processGeminiResponse rt orc (Suc n) t of
             (v, n') \<Rightarrow>
               if truthy v
               then (case getProp v ''assumptionsMade'' of
                       Inl e \<Rightarrow> (fallbackResult rt results, n')
                     | Inr am \<Rightarrow>
                         (case jsToString rt (orElse am (JStr [])) of
                            Inl e \<Rightarrow> (fallbackResult rt results, n')
                          | Inr old \<Rightarrow>
                              (case setProp v ''assumptionsMade''
                                      (JStr (trim (old @ mergeNote (length results)))) of
                                 Inl e \<Rightarrow> (fallbackResult rt results, n')
                               | Inr v' \<Rightarrow> (Inr v', n'))))
               else (fallbackResult rt results, n')))"

text \<open>\<^verbatim>\<open>!apiKey\<close> is true of an undefined variable and of the empty string.\<close>

definition keyPresent :: "string option \<Rightarrow> bool" where
  "keyPresent key = (case key of None \<Rightarrow> False | Some k \<Rightarrow> k \<noteq> [])"

definition findConsensusResult ::
  "runtime \<Rightarrow> string option \<Rightarrow> collaborator \<Rightarrow> nat \<Rightarrow> json list \<Rightarrow> (error + json) \<times> nat" where
  "findConsensusResult rt key orc n results =
     (case results of
        [r] \<Rightarrow> (Inr r, n)
      | _ \<Rightarrow>
          if \<not> keyPresent key then (fallbackResult rt results, n)
          else findConsensusResultWithModel rt orc n results)"

text \<open>
  What the caller of the asynchronous \<^verbatim>\<open>getCalorieBreakdown\<close> gets: a value, or a
  rejection.
\<close>

datatype outcome = Resolved json | Rejected error

definition errorResult :: "string \<Rightarrow> json" where
  "errorResult msg =
     JObj [(''error'', JStr msg), (''totalEstimatedCalories'', JNum (Fin 0)), (''items'', JArr [] [])]"

definition notFoodResult :: json where
  "notFoodResult = errorResult
     ''The uploaded image does not appear to be a food or meal photo. Please upload an image of your meal.''"

definition noValidResult :: json where
  "noValidResult = errorResult
     ''Failed to get any valid calorie breakdown from AI after multiple attempts.''"

definition failedResult :: json where
  "failedResult = errorResult ''Failed to get calorie breakdown from AI. Please try again later.''"

text \<open>
  \<^verbatim>\<open>getCalorieBreakdown\<close>, with the number of calls of the model it made. The promise
  of \<^verbatim>\<open>findConsensusResult\<close> is returned without \<^verbatim>\<open>await\<close>, so its rejection passes
  by the handler of the enclosing \<^verbatim>\<open>try\<close> and becomes the rejection of the result.
\<close>

definition getCalorieBreakdown :: "runtime \<Rightarrow> string option \<Rightarrow> collaborator \<Rightarrow> outcome \<times> nat" where
  "getCalorieBreakdown rt key orc =
     (if \<not> keyPresent key then (Resolved failedResult, 0)
      else
        (case validateFoodImage orc 0 of
           (isFood, n1) \<Rightarrow>
             if \<not> isFood then (Resolved notFoodResult, n1)
             else
               (case runAnalyses rt orc NUM_ANALYSES n1 [] of
                  (analysisResults, n2) \<Rightarrow>
                    if analysisResults = [] then (Resolved noValidResult, n2)
                    else
                      (case findConsensusResult rt key orc n2 analysisResults of
                         (Inl e, n3) \<Rightarrow> (Rejected e, n3)
                       | (Inr v, n3) \<Rightarrow> (Resolved v, n3)))))"


section \<open>Candidates as the data model has them\<close>

text \<open>
  A candidate of the data model, as far as the reducer reads it: an object whose
  \<open>items\<close>, when present, is an array without null entries (and, as every array the
  parser returns, without a written property \<open>map\<close>), whose \<open>confidenceScore\<close>,
  when present, is a number and whose \<open>assumptionsMade\<close>, when present, is a string.
\<close>

definition candidate :: "json \<Rightarrow> bool" where
  "candidate r =
     (case r of
        JObj ps \<Rightarrow>
          (case map_of ps ''items'' of
             None \<Rightarrow> True
           | Some JNull \<Rightarrow> True
           | Some (JArr xs qs) \<Rightarrow> JNull \<notin> set xs \<and> map_of qs ''map'' = None
           | Some _ \<Rightarrow> False) \<and>
          (case map_of ps ''confidenceScore'' of
             None \<Rightarrow> True
           | Some (JNum x) \<Rightarrow> True
           | Some _ \<Rightarrow> False) \<and>
          (case map_of ps ''assumptionsMade'' of
             None \<Rightarrow> True
           | Some (JStr a) \<Rightarrow> True
           | Some _ \<Rightarrow> False)
      | _ \<Rightarrow> False)"

text \<open>
  The confidence of a candidate, an absent score counting as 0, and the candidates whose
  score is absent or a finite number that is not negative (the data model has it in the
  interval from 0 to 1).
\<close>

definition confidenceOf :: "json \<Rightarrow> rat" where
  "confidenceOf r =
     (case getProp r ''confidenceScore'' of Inr (Some (JNum (Fin x))) \<Rightarrow> x | _ \<Rightarrow> 0)"

definition scored :: "json \<Rightarrow> bool" where
  "scored r =
     (case getProp r ''confidenceScore'' of
        Inr None \<Rightarrow> True
      | Inr (Some (JNum (Fin x))) \<Rightarrow> 0 \<le> x
      | _ \<Rightarrow> False)"

text \<open>
  The text of \<open>assumptionsMade\<close> before the reducer writes it: empty when the property
  is absent.
\<close>

definition assumptionsOf :: "json \<Rightarrow> string" where
  "assumptionsOf r = (case getProp r ''assumptionsMade'' of Inr (Some (JStr a)) \<Rightarrow> a | _ \<Rightarrow> [])"

text \<open>The number of candidates that have the key of the candidate \<open>r\<close>.\<close>

definition bucketSize :: "json list \<Rightarrow> json \<Rightarrow> nat" where
  "bucketSize results r = count_list (map signatureOf results) (signatureOf r)"

text \<open>
  What the \<^verbatim>\<open>Map\<close> holds after the keys \<open>P\<close> were counted: one entry for each key
  that occurs, with the number of its occurrences and the index of the first one.
\<close>

definition tally :: "counts \<Rightarrow> signature list \<Rightarrow> bool" where
  "tally m P \<longleftrightarrow>
     distinct (map fst m) \<and> fst ` set m = set P \<and>
     (\<forall>e\<in>set m. fst (snd e) = count_list P (fst e) \<and> snd (snd e) < length P \<and>
                 P ! snd (snd e) = fst e)"

text \<open>
  A value that the parser made of a reply among the first \<open>n\<close> calls of a run: of the
  reply after the cleanup of the validation, or after the cleanup of a response.
\<close>

definition parsedReply :: "runtime \<Rightarrow> collaborator \<Rightarrow> nat \<Rightarrow> json \<Rightarrow> bool" where
  "parsedReply rt orc n u \<longleftrightarrow>
     (\<exists>j<n. \<exists>t. orc j = Replies t \<and>
        (parseJSON rt (cleanValidation t) = Some u \<or> parseJSON rt (cleanResponse t) = Some u))"

text \<open>\<^verbatim>\<open>s.endsWith(suf)\<close>\<close>

definition endsWith :: "string \<Rightarrow> string \<Rightarrow> bool" where
  "endsWith s suf = (length suf \<le> length s \<and> drop (length s - length suf) s = suf)"

section \<open>Example data\<close>

text \<open>
  A runtime whose parser knows the two texts of the examples, on which it agrees with
  \<^verbatim>\<open>JSON.parse\<close>, and whose conversions between numbers and strings are never reached
  by the examples.
\<close>

definition exampleRuntime :: runtime where
  \<open>exampleRuntime =
     \<lparr>parseJSON = (\<lambda>s. if s = ''{}'' then Some (JObj [])
                        else if s = ''{"items":[null]}'' then Some (JObj [(''items'', JArr [JNull] [])])
                        else None),
      numberToString = (\<lambda>x. []),
      stringToNumber = (\<lambda>s. None)\<rparr>\<close>

definition mealRice :: json where
  "mealRice = JObj
     [(''mealDescription'', JStr ''rice''), (''totalEstimatedCalories'', JNum (Fin 200)),
      (''items'', JArr [JObj [(''itemName'', JStr ''rice''), (''quantity'', JStr ''1 cup''),
                              (''calories'', JNum (Fin 200))]] []),
      (''confidenceScore'', JNum (Fin (4 / 5))), (''assumptionsMade'', JStr ''cooked'')]"

definition mealRiceAgain :: json where
  "mealRiceAgain = JObj
     [(''mealDescription'', JStr ''rice''), (''totalEstimatedCalories'', JNum (Fin 200)),
      (''items'', JArr [JObj [(''itemName'', JStr ''rice''), (''quantity'', JStr ''150g''),
                              (''calories'', JNum (Fin 200))]] []),
      (''confidenceScore'', JNum (Fin (3 / 5))), (''assumptionsMade'', JStr ''boiled'')]"

definition mealSoup :: json where
  "mealSoup = JObj
     [(''mealDescription'', JStr ''soup''), (''totalEstimatedCalories'', JNum (Fin 150)),
      (''items'', JArr [] []), (''confidenceScore'', JNum (Fin (9 / 10)))]"

definition mealToast :: json where
  "mealToast = JObj
     [(''mealDescription'', JStr ''toast''), (''totalEstimatedCalories'', JNum (Fin 90)),
      (''confidenceScore'', JNum (Fin (9 / 10))), (''assumptionsMade'', JStr ''dry'')]"

definition mealPlain :: json where
  "mealPlain = JObj [(''mealDescription'', JStr ''bagel'')]"

text \<open>
  Two values that are not candidates: the \<open>assumptionsMade\<close> of the first and the
  \<open>confidenceScore\<close> of the second are objects with an own \<open>toString\<close>.
\<close>

definition oddAssumptions :: json where
  "oddAssumptions = JObj
     [(''mealDescription'', JStr ''rice''),
      (''assumptionsMade'', JObj [(''toString'', JNum (Fin 1))])]"

definition oddScore :: json where
  "oddScore = JObj
     [(''mealDescription'', JStr ''rice''),
      (''confidenceScore'', JObj [(''toString'', JNum (Fin 1))])]"

definition sigRice :: signature where
  "sigRice = (Some (JStr ''rice''), Some (JNum (Fin 200)), Some [(Some (JStr ''rice''), Some (JNum (Fin 200)))])"

definition sigSoup :: signature where
  "sigSoup = (Some (JStr ''soup''), Some (JNum (Fin 150)), Some [])"

text \<open>
  Three runs, all with a gate that answers \<^verbatim>\<open>true\<close>: one in which every later call
  throws; one in which a single sample, the text \<^verbatim>\<open>{}\<close>, gets through; one in which two
  samples \<^verbatim>\<open>{"items":[null]}\<close> get through and the call of the merge throws.
\<close>

definition allThrow :: collaborator where
  "allThrow n = (if n = 0 then Replies ''true'' else Throws)"

definition oneEmptyObject :: collaborator where
  "oneEmptyObject n = (if n = 0 then Replies ''true'' else if n = 1 then Replies ''{}'' else Throws)"

definition twoNullItems :: collaborator where
  \<open>twoNullItems n =
     (if n = 0 then Replies ''true''
      else if n = 4 \<or> n = 6 then Replies ''{"items":[null]}'' else Throws)\<close>

definition notFood :: collaborator where
  "notFood n = (if n = 0 then Replies '' False  '' else Throws)"

section \<open>Properties of the repair step\<close>

text \<open>
  C7. The cleanup steps turn the text \<^verbatim>\<open>{"a": 1,}\<close> into \<^verbatim>\<open>{"a": 1}\<close>, and the
  fragment \<^verbatim>\<open>"totalEstimatedCalories",}\<close> has become
  \<^verbatim>\<open>"totalEstimatedCalories": 0,}\<close> when the trailing-comma cleanup is about to run.
\<close>

theorem repair_examples:
  \<open>cleanResponse ''{"a": 1,}'' = ''{"a": 1}'' \<and>
   beforeTrailingCommas ''"totalEstimatedCalories",}'' = ''"totalEstimatedCalories": 0,}''\<close>
  by code_simp

text \<open>
  C3. The cleanup steps do not leave every valid minified JSON text as it is: in
  \<^verbatim>\<open>{"a":"b"}\<close> the interleaved-text expression starts a match at the quote that
  closes the key, takes \<^verbatim>\<open>":"\<close> for a quoted value and deletes \<^verbatim>\<open>b"\<close> as stray text.
\<close>

theorem cleanResponse_breaks_valid_json:
  \<open>cleanResponse ''{"a":"b"}'' = ''{"a":"}'' \<and>
   removeInterleaved ''{"a":"b"}'' = ''{"a":"}'' \<and>
   cleanResponse ''{"a":1,"b":2}'' = ''{"a":1,":2}''\<close>
  by code_simp

section \<open>Properties of the deterministic reducer\<close>

subsection \<open>Candidates: nothing throws\<close>

lemma getProp_nonnull: "v \<noteq> JNull \<Longrightarrow> \<exists>x. getProp v k = Inr x"
  by (cases v) auto

lemma simplifyItem_nonnull: "v \<noteq> JNull \<Longrightarrow> \<exists>y. simplifyItem v = Inr y"
  using getProp_nonnull [of v "''itemName''"] getProp_nonnull [of v "''calories''"]
  by (auto simp: simplifyItem_def)

lemma mapE_simplifyItem: "JNull \<notin> set xs \<Longrightarrow> \<exists>ys. mapE simplifyItem xs = Inr ys"
proof (induction xs)
  case Nil
  then show ?case by simp
next
  case (Cons x xs)
  then obtain y ys where "simplifyItem x = Inr y" "mapE simplifyItem xs = Inr ys"
    using simplifyItem_nonnull [of x] by auto
  then show ?case by simp
qed

lemma candidate_object: "candidate r \<Longrightarrow> \<exists>ps. r = JObj ps"
  by (cases r) (auto simp: candidate_def)

lemma signatureOf_candidate: "candidate r \<Longrightarrow> \<exists>k. signatureOf r = Inr k"
proof -
  assume c: "candidate r"
  then obtain ps where r: "r = JObj ps" using candidate_object by blast
  have "\<exists>ys. simplifyItems (map_of ps ''items'') = Inr ys"
  proof (cases "map_of ps ''items''")
    case None
    then show ?thesis by simp
  next
    case (Some v)
    show ?thesis
    proof (cases v)
      case (JArr xs qs)
      with c r Some have xs: "JNull \<notin> set xs" "map_of qs ''map'' = None"
        by (simp_all add: candidate_def)
      then obtain ys where "mapE simplifyItem xs = Inr ys" using mapE_simplifyItem by blast
      with Some JArr xs(2) show ?thesis by simp
    qed (use c r Some in \<open>auto simp: candidate_def\<close>)
  qed
  then show ?thesis using r by (auto simp: signatureOf_def)
qed

lemma candidate_score:
  "candidate r \<Longrightarrow>
   \<exists>s n. getProp r ''confidenceScore'' = Inr s \<and> orElse s (JNum (Fin 0)) = JNum n"
  by (cases r) (auto simp: candidate_def orElse_def split: option.splits json.splits)

lemma candidate_assumptions:
  "candidate r \<Longrightarrow>
   \<exists>am. getProp r ''assumptionsMade'' = Inr am \<and>
        jsToString rt (orElse am (JStr [])) = Inr (assumptionsOf r)"
  by (cases r) (auto simp: candidate_def orElse_def assumptionsOf_def split: option.splits json.splits)

lemma jsGreater_numbers: "jsGreater rt (JNum x) (JNum y) = Inr (numLess y x)"
  by (simp add: jsGreater_def toPrimitive_def toNumber_def)

lemma countResults_total:
  "\<forall>r\<in>set rs. candidate r \<Longrightarrow> \<exists>m'. countResults rs i m = Inr m'"
proof (induction rs arbitrary: i m)
  case Nil
  then show ?case by simp
next
  case (Cons r rs)
  from Cons.prems have "candidate r" by simp
  then obtain k where k: "signatureOf r = Inr k" using signatureOf_candidate by blast
  from Cons.IH [of "Suc i" "bump m k i"] Cons.prems k show ?case by auto
qed

lemma highestConfidence_total:
  "\<forall>r\<in>set rs. candidate r \<Longrightarrow>
   \<exists>h' w'. highestConfidence rt rs i (JNum h, w) = Inr (JNum h', w')"
proof (induction rs arbitrary: i h w)
  case Nil
  then show ?case by simp
next
  case (Cons r rs)
  from Cons.prems obtain s n where s: "getProp r ''confidenceScore'' = Inr s"
    "orElse s (JNum (Fin 0)) = JNum n" using candidate_score [of r] by auto
  from Cons.prems have rs: "\<forall>r\<in>set rs. candidate r" by simp
  show ?case
    using s Cons.IH [OF rs, of "Suc i" n "Some i"] Cons.IH [OF rs, of "Suc i" h w]
    by (simp add: Let_def jsGreater_numbers)
qed

subsection \<open>The loops, whenever they return\<close>

lemma bump_index: "\<forall>e\<in>set m. snd (snd e) < i \<Longrightarrow> \<forall>e\<in>set (bump m k i). snd (snd e) < Suc i"
  by (induction m k i rule: bump.induct) (auto simp: less_Suc_eq)

lemma countResults_index:
  "countResults rs i m = Inr m' \<Longrightarrow> \<forall>e\<in>set m. snd (snd e) < i \<Longrightarrow>
   \<forall>e\<in>set m'. snd (snd e) < i + length rs"
proof (induction rs arbitrary: i m)
  case Nil
  then show ?case by simp
next
  case (Cons r rs)
  from Cons.prems(1) obtain k where k: "signatureOf r = Inr k"
    and run: "countResults rs (Suc i) (bump m k i) = Inr m'"
    by (cases "signatureOf r") auto
  from Cons.IH [OF run bump_index [OF Cons.prems(2)]] show ?case by simp
qed

lemma mostFrequent_max:
  "mostFrequent m (mx, w) = (mc, w') \<Longrightarrow>
   mx \<le> mc \<and> (\<forall>e\<in>set m. fst (snd e) \<le> mc) \<and>
   ((mc = mx \<and> w' = w) \<or> (\<exists>e\<in>set m. fst (snd e) = mc \<and> mx < mc \<and> w' = Some (snd (snd e))))"
proof (induction m "(mx, w)" arbitrary: mx w rule: mostFrequent.induct)
  case 1
  then show ?case by simp
next
  case (2 k c j m mx w)
  show ?case
  proof (cases "c > mx")
    case True
    with 2 have "c \<le> mc \<and> (\<forall>e\<in>set m. fst (snd e) \<le> mc) \<and>
      ((mc = c \<and> w' = Some j) \<or> (\<exists>e\<in>set m. fst (snd e) = mc \<and> c < mc \<and> w' = Some (snd (snd e))))"
      by simp
    with True show ?thesis by auto
  next
    case False
    with 2 have "mx \<le> mc \<and> (\<forall>e\<in>set m. fst (snd e) \<le> mc) \<and>
      ((mc = mx \<and> w' = w) \<or> (\<exists>e\<in>set m. fst (snd e) = mc \<and> mx < mc \<and> w' = Some (snd (snd e))))"
      by simp
    with False show ?thesis by auto
  qed
qed

lemma highestConfidence_bound:
  "highestConfidence rt rs i (hi, w) = Inr (hi', w') \<Longrightarrow>
   w' = w \<or> (\<exists>j. w' = Some j \<and> j < i + length rs)"
proof (induction rs arbitrary: i hi w)
  case Nil
  then show ?case by simp
next
  case (Cons r rs)
  from Cons.prems obtain s where s: "getProp r ''confidenceScore'' = Inr s"
    by (cases "getProp r ''confidenceScore''") auto
  from Cons.prems s obtain g where g: "jsGreater rt (orElse s (JNum (Fin 0))) hi = Inr g"
    by (cases "jsGreater rt (orElse s (JNum (Fin 0))) hi") (auto simp: Let_def)
  obtain hi1 w1 where step:
    "(if g then (orElse s (JNum (Fin 0)), Some i) else (hi, w)) = (hi1, w1)"
    and w1: "w1 = w \<or> w1 = Some i"
    by (cases g) auto
  from Cons.prems s g step have "highestConfidence rt rs (Suc i) (hi1, w1) = Inr (hi', w')"
    by (simp add: Let_def)
  from Cons.IH [OF this] w1 show ?case by auto
qed

subsection \<open>The counts are the sizes of the buckets\<close>

lemma bump_keys: "fst ` set (bump m k i) = insert k (fst ` set m)"
  by (induction m k i rule: bump.induct) auto

lemma bump_distinct: "distinct (map fst m) \<Longrightarrow> distinct (map fst (bump m k i))"
proof (induction m k i rule: bump.induct)
  case (1 k i)
  then show ?case by simp
next
  case (2 k' c j m k i)
  then show ?case using bump_keys [of m k i] by (auto simp: image_iff)
qed

lemma bump_entries:
  "distinct (map fst m) \<Longrightarrow> e \<in> set (bump m k i) \<Longrightarrow>
   (fst e \<noteq> k \<and> e \<in> set m) \<or>
   (fst e = k \<and> (\<exists>c. (k, c, snd (snd e)) \<in> set m \<and> fst (snd e) = Suc c)) \<or>
   (fst e = k \<and> k \<notin> fst ` set m \<and> e = (k, 1, i))"
proof (induction m k i rule: bump.induct)
  case (1 k i)
  then show ?case by simp
next
  case (2 k' c j m k i)
  show ?case
  proof (cases "k' = k")
    case True
    from "2.prems"(1) True have "\<forall>x\<in>set m. fst x \<noteq> k" by auto
    with "2.prems"(2) True show ?thesis by auto
  next
    case False
    from "2.prems"(1) have "distinct (map fst m)" by simp
    with 2 False show ?thesis by (auto simp: image_iff)
  qed
qed

lemma tally_bump:
  assumes "tally m P"
  shows "tally (bump m k (length P)) (P @ [k])"
  unfolding tally_def
proof (intro conjI ballI)
  show "distinct (map fst (bump m k (length P)))"
    using assms bump_distinct by (simp add: tally_def)
  show "fst ` set (bump m k (length P)) = set (P @ [k])"
    using assms by (auto simp: tally_def bump_keys)
next
  fix e assume e: "e \<in> set (bump m k (length P))"
  have d: "distinct (map fst m)" and keys: "fst ` set m = set P" and
    old: "\<forall>e\<in>set m. fst (snd e) = count_list P (fst e) \<and> snd (snd e) < length P \<and>
                 P ! snd (snd e) = fst e"
    using assms by (simp_all add: tally_def)
  from bump_entries [OF d e] consider
    (other) "fst e \<noteq> k" "e \<in> set m"
    | (seen) c where "fst e = k" "(k, c, snd (snd e)) \<in> set m" "fst (snd e) = Suc c"
    | (fresh) "fst e = k" "k \<notin> fst ` set m" "e = (k, 1, length P)"
    by blast
  then have "fst (snd e) = count_list (P @ [k]) (fst e) \<and> snd (snd e) < length (P @ [k]) \<and>
        (P @ [k]) ! snd (snd e) = fst e"
  proof cases
    case other
    with old show ?thesis by (auto simp: nth_append)
  next
    case seen
    from old seen(2) have "c = count_list P k" "snd (snd e) < length P" "P ! snd (snd e) = k"
      by force+
    with seen show ?thesis by (simp add: nth_append)
  next
    case fresh
    with keys have "k \<notin> set P" by simp
    with fresh show ?thesis by simp
  qed
  then show "fst (snd e) = count_list (P @ [k]) (fst e)" "snd (snd e) < length (P @ [k])"
    "(P @ [k]) ! snd (snd e) = fst e" by simp_all
qed

lemma countResults_tally:
  "countResults rs (length P) m = Inr m' \<Longrightarrow> tally m P \<Longrightarrow>
   \<exists>ks. map signatureOf rs = map Inr ks \<and> tally m' (P @ ks)"
proof (induction rs arbitrary: P m)
  case Nil
  then show ?case by simp
next
  case (Cons r rs)
  from Cons.prems(1) obtain k where k: "signatureOf r = Inr k"
    and run: "countResults rs (length (P @ [k])) (bump m k (length P)) = Inr m'"
    by (cases "signatureOf r") auto
  from Cons.IH [OF run tally_bump [OF Cons.prems(2)]] obtain ks where
    "map signatureOf rs = map Inr ks" "tally m' ((P @ [k]) @ ks)" by blast
  then have "map signatureOf (r # rs) = map Inr (k # ks) \<and> tally m' (P @ k # ks)"
    using k by simp
  then show ?case by blast
qed

lemma bucketSize_keys:
  assumes "map signatureOf results = map Inr ks" "i < length results"
  shows "bucketSize results (results ! i) = count_list ks (ks ! i)"
proof -
  from assms have "signatureOf (results ! i) = Inr (ks ! i)"
    by (metis length_map nth_map)
  then show ?thesis
    using assms(1) by (simp add: bucketSize_def count_list_map_conv [OF inj_Inr])
qed

lemma tally_count_pos: "tally m P \<Longrightarrow> e \<in> set m \<Longrightarrow> 1 \<le> fst (snd e)"
proof -
  assume t: "tally m P" and e: "e \<in> set m"
  then have "fst e \<in> set P" by (auto simp: tally_def)
  then have "count_list P (fst e) \<noteq> 0" by (simp add: count_list_0_iff)
  with t e show ?thesis by (auto simp: tally_def)
qed

lemma fallback_result_shape:
  assumes run: "findConsensusResultFallback rt results = Inr (i, c)"
  shows "i < length results \<and>
         (\<exists>am old. getProp (results ! i) ''assumptionsMade'' = Inr am \<and>
            jsToString rt (orElse am (JStr [])) = Inr old \<and>
            setProp (results ! i) ''assumptionsMade''
              (JStr (trim (old @ consensusNote (bucketSize results (results ! i)) (length results))))
              = Inr c)"
proof -
  from run obtain m where m: "countResults results 0 [] = Inr m"
    by (cases "countResults results 0 []") (auto simp: findConsensusResultFallback_def)
  have ne: "results \<noteq> []"
    using run by (auto simp: findConsensusResultFallback_def)
  have "tally [] []" by (simp add: tally_def)
  with m obtain ks where ks: "map signatureOf results = map Inr ks" and t: "tally m ks"
    using countResults_tally [of results "[]" "[]" m] by auto
  from ks have len: "length ks = length results" by (metis length_map)
  obtain mc w where mf: "mostFrequent m (0, Some 0) = (mc, w)"
    by (cases "mostFrequent m (0, Some 0)")
  from len ne have "set ks \<noteq> {}" by auto
  with t have "set m \<noteq> {}" by (auto simp: tally_def)
  then have "hd m \<in> set m" by simp
  then obtain e0 where e0: "e0 \<in> set m" ..
  from mostFrequent_max [OF mf] have mx: "\<forall>e\<in>set m. fst (snd e) \<le> mc"
    and alt: "(mc = 0 \<and> w = Some 0) \<or>
              (\<exists>e\<in>set m. fst (snd e) = mc \<and> 0 < mc \<and> w = Some (snd (snd e)))" by auto
  from tally_count_pos [OF t e0] mx e0 have pos: "1 \<le> mc" by force
  with alt obtain e where e: "e \<in> set m" "fst (snd e) = mc" "w = Some (snd (snd e))" by auto
  from t e have ej: "snd (snd e) < length ks" "ks ! snd (snd e) = fst e"
    "mc = count_list ks (fst e)" by (auto simp: tally_def)
  from run m mf ne have tail:
    "\<exists>hi. (if mc = 1 then highestConfidence rt results 0 (JNum (Fin 0), w)
            else Inr (JNum (Fin 0), w)) = Inr (hi, Some i) \<and>
       (\<exists>am old. getProp (results ! i) ''assumptionsMade'' = Inr am \<and>
            jsToString rt (orElse am (JStr [])) = Inr old \<and>
            setProp (results ! i) ''assumptionsMade''
              (JStr (trim (old @ consensusNote mc (length results)))) = Inr c)"
    by (auto simp: findConsensusResultFallback_def split: sum.splits option.splits)
  then obtain hi where hc:
    "(if mc = 1 then highestConfidence rt results 0 (JNum (Fin 0), w)
      else Inr (JNum (Fin 0), w)) = Inr (hi, Some i)" by blast
  have i: "i < length results"
  proof (cases "mc = 1")
    case True
    with hc highestConfidence_bound [of rt results 0 "JNum (Fin 0)" w hi "Some i"]
    show ?thesis using e(3) ej(1) len by auto
  next
    case False
    with hc e(3) ej(1) len show ?thesis by simp
  qed
  have "count_list ks (ks ! i) = mc"
  proof (cases "mc = 1")
    case True
    from i len have "ks ! i \<in> set ks" by simp
    moreover from t have "fst ` set m = set ks" by (simp add: tally_def)
    ultimately have "ks ! i \<in> fst ` set m" by simp
    then obtain e' where e': "ks ! i = fst e'" "e' \<in> set m" by (rule imageE)
    with t have "fst (snd e') = count_list ks (ks ! i)" by (simp add: tally_def)
    moreover from mx e'(2) have "fst (snd e') \<le> mc" by simp
    moreover from tally_count_pos [OF t e'(2)] have "1 \<le> fst (snd e')" .
    ultimately show ?thesis using True by simp
  next
    case False
    with hc e(3) have "i = snd (snd e)" by simp
    with ej show ?thesis by simp
  qed
  then have "bucketSize results (results ! i) = mc"
    using bucketSize_keys [OF ks i] by simp
  with tail i show ?thesis by auto
qed

lemma fallback_total:
  assumes ne: "results \<noteq> []" and cs: "\<forall>r\<in>set results. candidate r"
  shows "\<exists>i c. findConsensusResultFallback rt results = Inr (i, c)"
proof -
  obtain m where m: "countResults results 0 [] = Inr m" using countResults_total [OF cs] by blast
  have mi: "\<forall>e\<in>set m. snd (snd e) < length results"
    using countResults_index [OF m] by simp
  obtain mc w where mf: "mostFrequent m (0, Some 0) = (mc, w)"
    by (cases "mostFrequent m (0, Some 0)")
  from mostFrequent_max [OF mf] mi ne obtain j where w: "w = Some j" "j < length results"
    by auto
  obtain h' w' where hc:
    "(if mc = 1 then highestConfidence rt results 0 (JNum (Fin 0), w)
      else Inr (JNum (Fin 0), w)) = Inr (JNum h', w')"
    using highestConfidence_total [OF cs, of rt 0 "Fin 0" w] by (cases "mc = 1") auto
  have "w' = w \<or> (\<exists>j. w' = Some j \<and> j < length results)"
    using hc highestConfidence_bound [of rt results 0 "JNum (Fin 0)" w "JNum h'" w']
    by (cases "mc = 1") auto
  with w obtain i where i: "w' = Some i" "i < length results" by auto
  then have c: "candidate (results ! i)" using cs by simp
  then obtain ps where ps: "results ! i = JObj ps" using candidate_object by blast
  from candidate_assumptions [OF c, of rt] obtain am where
    am: "getProp (results ! i) ''assumptionsMade'' = Inr am"
    "jsToString rt (orElse am (JStr [])) = Inr (assumptionsOf (results ! i))" by blast
  show ?thesis
    using m mf hc i(1) am ps ne by (simp add: findConsensusResultFallback_def)
qed

lemma map_of_assign_other: "k' \<noteq> k \<Longrightarrow> map_of (assign ps k v) k' = map_of ps k'"
  by (induction ps k v rule: assign.induct) auto

lemma setProp_frame:
  "setProp u k x = Inr v \<Longrightarrow> k' \<noteq> k \<Longrightarrow> getProp v k' = getProp u k'"
  by (cases u) (auto simp: map_of_assign_other)

text \<open>
  C10. Given two or more values, whenever the reducer returns it returns one of them (the
  value at an index of the input) with only its assumptionsMade written, to the old text
  followed by the note "(Based on consensus from k/N analyses)", where \<open>k\<close> is the number
  of inputs with the key of the returned one and \<open>N\<close> the number of inputs; every other
  property of the returned value is the property of that input. On candidates of the data
  model the reducer does return.
\<close>

theorem fallback_returns_input_candidate:
  assumes "2 \<le> length results"
  shows "(\<forall>i c. findConsensusResultFallback rt results = Inr (i, c) \<longrightarrow>
            i < length results \<and>
            (\<exists>am old. getProp (results ! i) ''assumptionsMade'' = Inr am \<and>
               jsToString rt (orElse am (JStr [])) = Inr old \<and>
               setProp (results ! i) ''assumptionsMade''
                 (JStr (trim (old @ consensusNote (bucketSize results (results ! i)) (length results))))
                 = Inr c) \<and>
            (\<forall>k. k \<noteq> ''assumptionsMade'' \<longrightarrow> getProp c k = getProp (results ! i) k)) \<and>
         ((\<forall>r\<in>set results. candidate r) \<longrightarrow>
            (\<exists>i c. findConsensusResultFallback rt results = Inr (i, c)))"
proof (intro conjI allI impI)
  fix i c assume run: "findConsensusResultFallback rt results = Inr (i, c)"
  from fallback_result_shape [OF run] show "i < length results" by simp
  from fallback_result_shape [OF run] show
    "\<exists>am old. getProp (results ! i) ''assumptionsMade'' = Inr am \<and>
               jsToString rt (orElse am (JStr [])) = Inr old \<and>
               setProp (results ! i) ''assumptionsMade''
                 (JStr (trim (old @ consensusNote (bucketSize results (results ! i)) (length results))))
                 = Inr c" by simp
  fix k :: string assume "k \<noteq> ''assumptionsMade''"
  with fallback_result_shape [OF run] show "getProp c k = getProp (results ! i) k"
    using setProp_frame by blast
next
  assume "\<forall>r\<in>set results. candidate r"
  moreover from assms have "results \<noteq> []" by auto
  ultimately show "\<exists>i c. findConsensusResultFallback rt results = Inr (i, c)"
    using fallback_total by blast
qed

lemma endsWith_append: "endsWith (p @ suf) suf"
  by (simp add: endsWith_def)

lemma trim_keeps_note:
  assumes "y \<noteq> []" "\<not> isSpace (hd y)" "\<not> isSpace (last y)"
  shows "\<exists>p. trim (x @ CHR '' '' # y) = p @ y"
proof -
  have sp: "isSpace CHR '' ''" by (simp add: isSpace_def)
  from assms(1,2) have dy: "dropWhile isSpace y = y" by (cases y) auto
  have "\<exists>p. dropWhile isSpace (x @ CHR '' '' # y) = p @ y"
  proof (cases "\<forall>c\<in>set x. isSpace c")
    case True
    then have "dropWhile isSpace (x @ CHR '' '' # y) = [] @ y"
      using sp dy by (simp add: dropWhile_append)
    then show ?thesis by blast
  next
    case False
    then have "dropWhile isSpace (x @ CHR '' '' # y) = (dropWhile isSpace x @ [CHR '' '']) @ y"
      by (auto simp: dropWhile_append)
    then show ?thesis by blast
  qed
  then obtain p where p: "dropWhile isSpace (x @ CHR '' '' # y) = p @ y" by blast
  from assms(1,3) have "dropWhile isSpace (rev y @ rev p) = rev y @ rev p"
    by (cases y rule: rev_cases) auto
  then show ?thesis using p by (auto simp: trim_def)
qed

lemma consensusNote_2_3: "consensusNote 2 3 = '' (Based on consensus from 2/3 analyses)''"
  by code_simp

lemma note_2_3:
  "endsWith (trim (x @ '' (Based on consensus from 2/3 analyses)''))
     ''(Based on consensus from 2/3 analyses)''"
proof -
  obtain p where "trim (x @ CHR '' '' # ''(Based on consensus from 2/3 analyses)'') =
      p @ ''(Based on consensus from 2/3 analyses)''"
    using trim_keeps_note [of "''(Based on consensus from 2/3 analyses)''" x]
    by (auto simp: isSpace_def)
  then show ?thesis using endsWith_append by simp
qed

lemma fallback_majority:
  assumes c: "candidate (rs ! i)"
    and cnt: "countResults rs 0 [] = Inr m" and mf: "mostFrequent m (0, Some 0) = (2, Some i)"
    and len: "length rs = 3"
  shows "\<exists>r. findConsensusResultFallback rt rs = Inr (i, r) \<and>
           setProp (rs ! i) ''assumptionsMade''
             (JStr (trim (assumptionsOf (rs ! i) @ '' (Based on consensus from 2/3 analyses)'')))
             = Inr r"
proof -
  from c obtain ps where ps: "rs ! i = JObj ps" using candidate_object by blast
  from candidate_assumptions [OF c, of rt] obtain am where
    am: "getProp (rs ! i) ''assumptionsMade'' = Inr am"
    "jsToString rt (orElse am (JStr [])) = Inr (assumptionsOf (rs ! i))" by blast
  from len have ne: "rs \<noteq> []" by auto
  show ?thesis
    using cnt mf am ps ne len
    by (simp add: findConsensusResultFallback_def consensusNote_2_3)
qed

text \<open>
  C1 (amended). Of three candidates of the data model of which exactly two have the same
  key, the reducer returns the first of the two that agree, with its assumptionsMade
  written to the old text followed by the note, a text that ends with
  "(Based on consensus from 2/3 analyses)": the note is closed by a parenthesis, so the
  text does not end with "consensus from 2/3 analyses".
\<close>

theorem fallback_two_of_three:
  assumes "candidate a" "candidate b" "candidate c"
    and "signatureOf a = Inr ka" "signatureOf b = Inr kb" "signatureOf c = Inr kc"
    and "(ka = kb \<and> kc \<noteq> ka) \<or> (ka = kc \<and> kb \<noteq> ka) \<or> (kb = kc \<and> ka \<noteq> kb)"
  shows "\<exists>i j r s. findConsensusResultFallback rt [a, b, c] = Inr (i, r) \<and> i < j \<and> j < 3 \<and>
           signatureOf ([a, b, c] ! i) = signatureOf ([a, b, c] ! j) \<and>
           s = trim (assumptionsOf ([a, b, c] ! i) @ '' (Based on consensus from 2/3 analyses)'') \<and>
           setProp ([a, b, c] ! i) ''assumptionsMade'' (JStr s) = Inr r \<and>
           endsWith s ''(Based on consensus from 2/3 analyses)''"
proof -
  have cnt: "countResults [a, b, c] 0 [] = Inr (bump (bump (bump [] ka 0) kb 1) kc 2)"
    using assms(4-6) by simp
  consider (ab) "ka = kb" "kc \<noteq> ka" | (ac) "ka = kc" "kb \<noteq> ka" | (bc) "kb = kc" "ka \<noteq> kb"
    using assms(7) by blast
  then obtain i j where ij: "i < j" "j < 3"
    "signatureOf ([a, b, c] ! i) = signatureOf ([a, b, c] ! j)"
    "mostFrequent (bump (bump (bump [] ka 0) kb 1) kc 2) (0, Some 0) = (2, Some i)"
  proof cases
    case ab
    show ?thesis by (rule that [of 0 1]) (use ab assms(4,5) in auto)
  next
    case ac
    show ?thesis by (rule that [of 0 2]) (use ac assms(4,6) in auto)
  next
    case bc
    show ?thesis by (rule that [of 1 2]) (use bc assms(5,6) in auto)
  qed
  have "[a, b, c] ! i \<in> set [a, b, c]" using ij(1,2) by (intro nth_mem) simp
  with assms(1-3) have ci: "candidate ([a, b, c] ! i)" by auto
  from fallback_majority [where rt = rt, OF ci cnt ij(4)] obtain r where
    r: "findConsensusResultFallback rt [a, b, c] = Inr (i, r)"
    "setProp ([a, b, c] ! i) ''assumptionsMade''
       (JStr (trim (assumptionsOf ([a, b, c] ! i) @ '' (Based on consensus from 2/3 analyses)'')))
       = Inr r" by auto
  show ?thesis
    using r ij(1-3) note_2_3 [of "assumptionsOf ([a, b, c] ! i)"] by blast
qed

lemma scored_nonneg: "scored r \<Longrightarrow> 0 \<le> confidenceOf r"
  by (auto simp: scored_def confidenceOf_def split: sum.splits option.splits json.splits num.splits)

lemma scored_confidence:
  "scored r \<Longrightarrow>
   \<exists>s. getProp r ''confidenceScore'' = Inr s \<and> orElse s (JNum (Fin 0)) = JNum (Fin (confidenceOf r))"
  by (auto simp: scored_def confidenceOf_def orElse_def
           split: sum.splits option.splits json.splits num.splits)

lemma highestConfidence_argmax:
  assumes "\<forall>r\<in>set rs. scored r"
  shows "\<exists>h' w'. highestConfidence rt rs i (JNum (Fin h), w) = Inr (JNum (Fin h'), w') \<and> h \<le> h' \<and>
           (\<forall>r\<in>set rs. confidenceOf r \<le> h') \<and>
           ((h' = h \<and> w' = w) \<or>
            (\<exists>j<length rs. w' = Some (i + j) \<and> confidenceOf (rs ! j) = h' \<and> h < h' \<and>
               (\<forall>l<j. confidenceOf (rs ! l) < h')))"
  using assms
proof (induction rs arbitrary: i h w)
  case Nil
  then show ?case by simp
next
  case (Cons r rs)
  define c where "c = confidenceOf r"
  from Cons.prems obtain s where s: "getProp r ''confidenceScore'' = Inr s"
    "orElse s (JNum (Fin 0)) = JNum (Fin c)"
    using scored_confidence [of r] by (auto simp: c_def)
  from Cons.prems have rs: "\<forall>r\<in>set rs. scored r" by simp
  have gt: "jsGreater rt (JNum (Fin c)) (JNum (Fin h)) = Inr (h < c)"
    by (simp add: jsGreater_numbers)
  show ?case
  proof (cases "h < c")
    case True
    from Cons.IH [OF rs, of "Suc i" c "Some i"] obtain h' w' where
      run: "highestConfidence rt rs (Suc i) (JNum (Fin c), Some i) = Inr (JNum (Fin h'), w')" and
      le: "c \<le> h'" and ub: "\<forall>r\<in>set rs. confidenceOf r \<le> h'" and
      alt: "(h' = c \<and> w' = Some i) \<or>
            (\<exists>j<length rs. w' = Some (Suc i + j) \<and> confidenceOf (rs ! j) = h' \<and> c < h' \<and>
               (\<forall>l<j. confidenceOf (rs ! l) < h'))" by blast
    have step: "highestConfidence rt (r # rs) i (JNum (Fin h), w) = Inr (JNum (Fin h'), w')"
      using s gt True run by (simp add: Let_def)
    have ub': "\<forall>x\<in>set (r # rs). confidenceOf x \<le> h'" using ub le by (simp add: c_def)
    have "\<exists>j<length (r # rs). w' = Some (i + j) \<and> confidenceOf ((r # rs) ! j) = h' \<and> h < h' \<and>
               (\<forall>l<j. confidenceOf ((r # rs) ! l) < h')"
      using alt
    proof
      assume "h' = c \<and> w' = Some i"
      then show ?thesis using True by (intro exI [of _ 0]) (simp add: c_def)
    next
      assume "\<exists>j<length rs. w' = Some (Suc i + j) \<and> confidenceOf (rs ! j) = h' \<and> c < h' \<and>
               (\<forall>l<j. confidenceOf (rs ! l) < h')"
      then obtain j where j: "j < length rs" "w' = Some (Suc i + j)" "confidenceOf (rs ! j) = h'"
        "c < h'" "\<forall>l<j. confidenceOf (rs ! l) < h'" by blast
      have "\<forall>l<Suc j. confidenceOf ((r # rs) ! l) < h'"
        using j(4,5) by (auto simp: nth_Cons' c_def)
      then show ?thesis using j True by (intro exI [of _ "Suc j"]) auto
    qed
    then show ?thesis using step ub' True le by auto
  next
    case False
    from Cons.IH [OF rs, of "Suc i" h w] obtain h' w' where
      run: "highestConfidence rt rs (Suc i) (JNum (Fin h), w) = Inr (JNum (Fin h'), w')" and
      le: "h \<le> h'" and ub: "\<forall>r\<in>set rs. confidenceOf r \<le> h'" and
      alt: "(h' = h \<and> w' = w) \<or>
            (\<exists>j<length rs. w' = Some (Suc i + j) \<and> confidenceOf (rs ! j) = h' \<and> h < h' \<and>
               (\<forall>l<j. confidenceOf (rs ! l) < h'))" by blast
    have step: "highestConfidence rt (r # rs) i (JNum (Fin h), w) = Inr (JNum (Fin h'), w')"
      using s gt False run by (simp add: Let_def)
    have ub': "\<forall>x\<in>set (r # rs). confidenceOf x \<le> h'" using ub le False by (simp add: c_def)
    have "(h' = h \<and> w' = w) \<or>
          (\<exists>j<length (r # rs). w' = Some (i + j) \<and> confidenceOf ((r # rs) ! j) = h' \<and> h < h' \<and>
               (\<forall>l<j. confidenceOf ((r # rs) ! l) < h'))"
      using alt
    proof
      assume "h' = h \<and> w' = w"
      then show ?thesis by simp
    next
      assume "\<exists>j<length rs. w' = Some (Suc i + j) \<and> confidenceOf (rs ! j) = h' \<and> h < h' \<and>
               (\<forall>l<j. confidenceOf (rs ! l) < h')"
      then obtain j where j: "j < length rs" "w' = Some (Suc i + j)" "confidenceOf (rs ! j) = h'"
        "h < h'" "\<forall>l<j. confidenceOf (rs ! l) < h'" by blast
      have "\<forall>l<Suc j. confidenceOf ((r # rs) ! l) < h'"
        using j(4,5) False by (auto simp: nth_Cons' c_def)
      then have "\<exists>j<length (r # rs). w' = Some (i + j) \<and> confidenceOf ((r # rs) ! j) = h' \<and> h < h' \<and>
               (\<forall>l<j. confidenceOf ((r # rs) ! l) < h')"
        using j by (intro exI [of _ "Suc j"]) auto
      then show ?thesis by blast
    qed
    then show ?thesis using step ub' le by auto
  qed
qed

lemma bump_fresh: "k \<notin> fst ` set m \<Longrightarrow> bump m k i = m @ [(k, 1, i)]"
  by (induction m k i rule: bump.induct) auto

lemma countResults_distinct:
  assumes "map signatureOf rs = map Inr ks" "distinct ks" "set ks \<inter> fst ` set m = {}"
  shows "\<exists>m'. countResults rs i m = Inr (m @ m') \<and> (\<forall>e\<in>set m'. fst (snd e) = 1) \<and>
           (rs \<noteq> [] \<longrightarrow> (\<exists>k t. m' = (k, 1, i) # t))"
  using assms
proof (induction rs arbitrary: ks i m)
  case Nil
  then show ?case by simp
next
  case (Cons r rs)
  then obtain k ks' where ks: "ks = k # ks'" "signatureOf r = Inr k"
    "map signatureOf rs = map Inr ks'" by (cases ks) auto
  from Cons.prems(2,3) ks(1) have fresh: "k \<notin> fst ` set m" and d: "distinct ks'"
    and disj: "set ks' \<inter> fst ` set (m @ [(k, 1, i)]) = {}" by auto
  from Cons.IH [OF ks(3) d disj, of "Suc i"] obtain m' where
    m': "countResults rs (Suc i) (m @ [(k, 1, i)]) = Inr ((m @ [(k, 1, i)]) @ m')"
    "\<forall>e\<in>set m'. fst (snd e) = 1" by blast
  have "countResults (r # rs) i m = Inr (m @ (k, 1, i) # m')"
    using ks(2) fresh m'(1) by (simp add: bump_fresh)
  moreover have "\<forall>e\<in>set ((k, 1, i) # m'). fst (snd e) = 1" using m'(2) by simp
  ultimately show ?case by blast
qed

lemma mostFrequent_ones: "\<forall>e\<in>set m. fst (snd e) = 1 \<Longrightarrow> mostFrequent m (1, w) = (1, w)"
  by (induction m "(1::nat, w)" rule: mostFrequent.induct) auto

lemma signatures_exist:
  "\<forall>r\<in>set rs. candidate r \<Longrightarrow> \<exists>ks. map signatureOf rs = map Inr ks"
proof (induction rs)
  case Nil
  then show ?case by simp
next
  case (Cons r rs)
  then obtain ks k where "map signatureOf rs = map Inr ks" "signatureOf r = Inr k"
    using signatureOf_candidate [of r] by auto
  then have "map signatureOf (r # rs) = map Inr (k # ks)" by simp
  then show ?case by blast
qed

lemma fallback_all_distinct:
  assumes ne: "results \<noteq> []" and cs: "\<forall>r\<in>set results. candidate r"
    and d: "distinct (map signatureOf results)"
  shows "\<exists>m. countResults results 0 [] = Inr m \<and> mostFrequent m (0, Some 0) = (1, Some 0)"
proof -
  from signatures_exist [OF cs] obtain ks where ks: "map signatureOf results = map Inr ks" by blast
  with d have dk: "distinct ks" by (simp add: distinct_map)
  from countResults_distinct [OF ks dk, of "[]" 0] ne obtain k t where
    m: "countResults results 0 [] = Inr ((k, 1, 0) # t)" and ones: "\<forall>e\<in>set t. fst (snd e) = 1"
    by auto
  have "mostFrequent ((k, 1, 0) # t) (0, Some 0) = (1, Some 0)"
    using mostFrequent_ones [OF ones, of "Some 0"] by simp
  with m show ?thesis by simp
qed

text \<open>
  C2. When no two candidates of the data model have the same key, the reducer returns the
  first candidate among those of highest confidence, an absent score counting as 0. The
  scores are those of the data model, proved here for every score that is not negative.
\<close>

theorem fallback_highest_confidence:
  assumes ne: "results \<noteq> []"
    and cs: "\<forall>r\<in>set results. candidate r \<and> scored r"
    and d: "distinct (map signatureOf results)"
  shows "\<exists>i r s. findConsensusResultFallback rt results = Inr (i, r) \<and> i < length results \<and>
           s = trim (assumptionsOf (results ! i) @ consensusNote 1 (length results)) \<and>
           setProp (results ! i) ''assumptionsMade'' (JStr s) = Inr r \<and>
           (\<forall>j<length results. confidenceOf (results ! j) \<le> confidenceOf (results ! i)) \<and>
           (\<forall>j<i. confidenceOf (results ! j) < confidenceOf (results ! i))"
proof -
  from cs have c1: "\<forall>r\<in>set results. candidate r" and c2: "\<forall>r\<in>set results. scored r" by auto
  from fallback_all_distinct [OF ne c1 d] obtain m where
    m: "countResults results 0 [] = Inr m" "mostFrequent m (0, Some 0) = (1, Some 0)" by blast
  from highestConfidence_argmax [OF c2, of rt 0 0 "Some 0"] obtain h' w' where
    run: "highestConfidence rt results 0 (JNum (Fin 0), Some 0) = Inr (JNum (Fin h'), w')" and
    ub: "\<forall>r\<in>set results. confidenceOf r \<le> h'" and
    alt: "(h' = 0 \<and> w' = Some 0) \<or>
          (\<exists>j<length results. w' = Some j \<and> confidenceOf (results ! j) = h' \<and> 0 < h' \<and>
             (\<forall>l<j. confidenceOf (results ! l) < h'))" by auto
  have "\<exists>i<length results. w' = Some i \<and> confidenceOf (results ! i) = h' \<and>
          (\<forall>l<i. confidenceOf (results ! l) < h')"
    using alt
  proof
    assume a: "h' = 0 \<and> w' = Some 0"
    have "0 \<le> confidenceOf (results ! 0)" using c2 ne scored_nonneg by simp
    moreover have "confidenceOf (results ! 0) \<le> h'" using ub ne by simp
    ultimately show ?thesis using a ne by (intro exI [of _ 0]) auto
  qed blast
  then obtain i where i: "i < length results" "w' = Some i" "confidenceOf (results ! i) = h'"
    "\<forall>l<i. confidenceOf (results ! l) < h'" by blast
  from i(1) c1 have ci: "candidate (results ! i)" by simp
  then obtain ps where ps: "results ! i = JObj ps" using candidate_object by blast
  from candidate_assumptions [OF ci, of rt] obtain am where
    am: "getProp (results ! i) ''assumptionsMade'' = Inr am"
    "jsToString rt (orElse am (JStr [])) = Inr (assumptionsOf (results ! i))" by blast
  have f: "findConsensusResultFallback rt results =
      Inr (i, JObj (assign ps ''assumptionsMade''
             (JStr (trim (assumptionsOf (results ! i) @ consensusNote 1 (length results))))))"
    using m run i(2) ps am ne by (simp add: findConsensusResultFallback_def)
  have "\<forall>j<length results. confidenceOf (results ! j) \<le> confidenceOf (results ! i)"
    using ub i(3) by simp
  then show ?thesis using f i ps by auto
qed

subsection \<open>Instances\<close>

theorem fallback_two_of_three_witness:
  "candidate mealRice \<and> candidate mealSoup \<and> candidate mealRiceAgain \<and>
   signatureOf mealRice = Inr sigRice \<and> signatureOf mealSoup = Inr sigSoup \<and>
   signatureOf mealRiceAgain = Inr sigRice \<and> sigSoup \<noteq> sigRice \<and>
   (\<exists>i j r s. findConsensusResultFallback exampleRuntime [mealRice, mealSoup, mealRiceAgain] = Inr (i, r) \<and>
      i < j \<and> j < 3 \<and>
      signatureOf ([mealRice, mealSoup, mealRiceAgain] ! i) = signatureOf ([mealRice, mealSoup, mealRiceAgain] ! j) \<and>
      s = trim (assumptionsOf ([mealRice, mealSoup, mealRiceAgain] ! i) @ '' (Based on consensus from 2/3 analyses)'') \<and>
      setProp ([mealRice, mealSoup, mealRiceAgain] ! i) ''assumptionsMade'' (JStr s) = Inr r \<and>
      endsWith s ''(Based on consensus from 2/3 analyses)'')"
proof -
  have c: "candidate mealRice" "candidate mealSoup" "candidate mealRiceAgain" by code_simp+
  have s: "signatureOf mealRice = Inr sigRice" "signatureOf mealSoup = Inr sigSoup"
    "signatureOf mealRiceAgain = Inr sigRice" by code_simp+
  have d: "sigSoup \<noteq> sigRice" by code_simp
  from d have h: "(sigRice = sigSoup \<and> sigRice \<noteq> sigRice) \<or> (sigRice = sigRice \<and> sigSoup \<noteq> sigRice) \<or>
     (sigSoup = sigRice \<and> sigRice \<noteq> sigSoup)" by simp
  show ?thesis
    using c s d fallback_two_of_three [OF c s h, of exampleRuntime] by simp
qed

text \<open>
  The claim C1 as it is written fails: the text written on the winner of a 2-of-3 vote ends
  with the closing parenthesis of the note.
\<close>

theorem fallback_note_counterexample:
  "signatureOf mealRice = signatureOf mealRiceAgain \<and> signatureOf mealSoup \<noteq> signatureOf mealRice \<and>
   findConsensusResultFallback exampleRuntime [mealRice, mealSoup, mealRiceAgain] =
     Inr (0, JObj
       [(''mealDescription'', JStr ''rice''), (''totalEstimatedCalories'', JNum (Fin 200)),
        (''items'', JArr [JObj [(''itemName'', JStr ''rice''), (''quantity'', JStr ''1 cup''),
                                (''calories'', JNum (Fin 200))]] []),
        (''confidenceScore'', JNum (Fin (4 / 5))),
        (''assumptionsMade'', JStr ''cooked (Based on consensus from 2/3 analyses)'')]) \<and>
   \<not> endsWith ''cooked (Based on consensus from 2/3 analyses)'' ''consensus from 2/3 analyses''"
  by code_simp

theorem fallback_highest_confidence_witness:
  "[mealRice, mealSoup, mealToast] \<noteq> [] \<and>
   candidate mealRice \<and> scored mealRice \<and> candidate mealSoup \<and> scored mealSoup \<and>
   candidate mealToast \<and> scored mealToast \<and>
   distinct (map signatureOf [mealRice, mealSoup, mealToast]) \<and>
   (\<exists>i r s. findConsensusResultFallback exampleRuntime [mealRice, mealSoup, mealToast] = Inr (i, r) \<and>
      i < length [mealRice, mealSoup, mealToast] \<and>
      s = trim (assumptionsOf ([mealRice, mealSoup, mealToast] ! i)
                @ consensusNote 1 (length [mealRice, mealSoup, mealToast])) \<and>
      setProp ([mealRice, mealSoup, mealToast] ! i) ''assumptionsMade'' (JStr s) = Inr r \<and>
      (\<forall>j<length [mealRice, mealSoup, mealToast].
          confidenceOf ([mealRice, mealSoup, mealToast] ! j) \<le> confidenceOf ([mealRice, mealSoup, mealToast] ! i)) \<and>
      (\<forall>j<i. confidenceOf ([mealRice, mealSoup, mealToast] ! j) < confidenceOf ([mealRice, mealSoup, mealToast] ! i)))"
proof -
  have ne: "[mealRice, mealSoup, mealToast] \<noteq> []" by simp
  have cs: "\<forall>r\<in>set [mealRice, mealSoup, mealToast]. candidate r \<and> scored r" by code_simp
  have d: "distinct (map signatureOf [mealRice, mealSoup, mealToast])" by code_simp
  show ?thesis
    using ne cs d fallback_highest_confidence [OF ne cs d, of exampleRuntime] by simp
qed

theorem fallback_returns_input_candidate_witness:
  "2 \<le> length [mealRice, mealPlain] \<and> candidate mealRice \<and> candidate mealPlain \<and>
   (\<exists>i c. findConsensusResultFallback exampleRuntime [mealRice, mealPlain] = Inr (i, c) \<and>
      i < length [mealRice, mealPlain] \<and>
      (\<exists>am old. getProp ([mealRice, mealPlain] ! i) ''assumptionsMade'' = Inr am \<and>
         jsToString exampleRuntime (orElse am (JStr [])) = Inr old \<and>
         setProp ([mealRice, mealPlain] ! i) ''assumptionsMade''
           (JStr (trim (old @ consensusNote (bucketSize [mealRice, mealPlain] ([mealRice, mealPlain] ! i))
                                (length [mealRice, mealPlain]))))
           = Inr c) \<and>
      (\<forall>k. k \<noteq> ''assumptionsMade'' \<longrightarrow> getProp c k = getProp ([mealRice, mealPlain] ! i) k))"
proof -
  have l: "2 \<le> length [mealRice, mealPlain]" by simp
  have c: "candidate mealRice" "candidate mealPlain" by code_simp+
  then have cs: "\<forall>r\<in>set [mealRice, mealPlain]. candidate r" by simp
  note th = fallback_returns_input_candidate [OF l, of exampleRuntime]
  from th [THEN conjunct2, THEN mp, OF cs] obtain i r where
    run: "findConsensusResultFallback exampleRuntime [mealRice, mealPlain] = Inr (i, r)" by blast
  note shape = th [THEN conjunct1, rule_format, OF run]
  from run shape have "\<exists>i c. findConsensusResultFallback exampleRuntime [mealRice, mealPlain] = Inr (i, c) \<and>
      i < length [mealRice, mealPlain] \<and>
      (\<exists>am old. getProp ([mealRice, mealPlain] ! i) ''assumptionsMade'' = Inr am \<and>
         jsToString exampleRuntime (orElse am (JStr [])) = Inr old \<and>
         setProp ([mealRice, mealPlain] ! i) ''assumptionsMade''
           (JStr (trim (old @ consensusNote (bucketSize [mealRice, mealPlain] ([mealRice, mealPlain] ! i))
                                (length [mealRice, mealPlain]))))
           = Inr c) \<and>
      (\<forall>k. k \<noteq> ''assumptionsMade'' \<longrightarrow> getProp c k = getProp ([mealRice, mealPlain] ! i) k)"
    by (intro exI [of _ i] exI [of _ r] conjI) blast+
  with l c show ?thesis by (intro conjI)
qed

subsection \<open>Values outside the data model\<close>

lemma fallback_throws_on_unconvertible:
  "findConsensusResultFallback exampleRuntime [oddAssumptions, oddAssumptions, mealPlain] = Inl TypeError \<and>
   findConsensusResultFallback exampleRuntime [oddScore, mealPlain] = Inl TypeError"
  by code_simp

lemma infinite_total_is_written_as_null:
  "signatureOf (JObj [(''totalEstimatedCalories'', JNum PosInf)]) =
   signatureOf (JObj [(''totalEstimatedCalories'', JNull)])"
  by code_simp

section \<open>Properties of the pipeline\<close>

lemma validateJsonFormat_source:
  "validateJsonFormat rt orc n response = (Inr v, n') \<Longrightarrow>
   n' = Suc n \<and>
   ((\<exists>t. orc n = Replies t \<and> parseJSON rt (cleanValidation t) = Some v) \<or>
    parseJSON rt response = Some v)"
  by (auto simp: validateJsonFormat_def parseOrThrow_def split: call.splits option.splits)

lemma processGeminiResponse_source:
  assumes "processGeminiResponse rt orc n t0 = (v, n')" "truthy v"
  shows "n' = Suc n \<and>
         ((\<exists>t. orc n = Replies t \<and> parseJSON rt (cleanValidation t) = Some v) \<or>
          parseJSON rt (cleanResponse t0) = Some v)"
proof (cases "validateJsonFormat rt orc n (cleanResponse t0)")
  case (Pair r m)
  with assms have "r = Inr v" "m = n'"
    by (auto simp: processGeminiResponse_def split: sum.splits)
  with Pair validateJsonFormat_source [of rt orc n "cleanResponse t0" v n'] show ?thesis by simp
qed

lemma parsedReply_mono: "parsedReply rt orc n u \<Longrightarrow> n \<le> n' \<Longrightarrow> parsedReply rt orc n' u"
  unfolding parsedReply_def by (meson less_le_trans)

lemma analysisAttempt_counter: "analysisAttempt rt orc n = (r, n') \<Longrightarrow> n < n'"
  by (auto simp: analysisAttempt_def processGeminiResponse_def validateJsonFormat_def
           split: call.splits prod.splits sum.splits option.splits if_splits)

lemma analysisAttempt_source:
  assumes "analysisAttempt rt orc n = (Some v, n')"
  shows "truthy v \<and> parsedReply rt orc n' v"
proof -
  from assms obtain t0 where t0: "orc n = Replies t0"
    by (cases "orc n") (auto simp: analysisAttempt_def)
  with assms have p: "processGeminiResponse rt orc (Suc n) t0 = (v, n')" and tr: "truthy v"
    by (auto simp: analysisAttempt_def split: prod.splits if_splits)
  from processGeminiResponse_source [OF p tr] have n': "n' = Suc (Suc n)" and
    src: "(\<exists>t. orc (Suc n) = Replies t \<and> parseJSON rt (cleanValidation t) = Some v) \<or>
          parseJSON rt (cleanResponse t0) = Some v" by auto
  from src have "parsedReply rt orc n' v"
  proof
    assume "\<exists>t. orc (Suc n) = Replies t \<and> parseJSON rt (cleanValidation t) = Some v"
    then show ?thesis unfolding parsedReply_def n' by (intro exI [of _ "Suc n"]) auto
  next
    assume "parseJSON rt (cleanResponse t0) = Some v"
    with t0 show ?thesis unfolding parsedReply_def n' by (intro exI [of _ n]) auto
  qed
  with tr show ?thesis by simp
qed

lemma runAnalyses_invariant:
  "runAnalyses rt orc k n acc = (rs, n') \<Longrightarrow>
   \<forall>x\<in>set acc. truthy x \<and> parsedReply rt orc n x \<Longrightarrow>
   n \<le> n' \<and> (\<forall>x\<in>set rs. truthy x \<and> parsedReply rt orc n' x)"
proof (induction k arbitrary: n acc)
  case 0
  then show ?case by simp
next
  case (Suc k)
  obtain r m where a: "analysisAttempt rt orc n = (r, m)" by (cases "analysisAttempt rt orc n")
  from analysisAttempt_counter [OF a] have nm: "n \<le> m" by simp
  from Suc.prems(2) nm have acc: "\<forall>x\<in>set acc. truthy x \<and> parsedReply rt orc m x"
    using parsedReply_mono by blast
  show ?case
  proof (cases r)
    case None
    with a Suc.prems(1) have "runAnalyses rt orc k m acc = (rs, n')" by simp
    from Suc.IH [OF this acc] nm show ?thesis by simp
  next
    case (Some v)
    with a Suc.prems(1) have run: "runAnalyses rt orc k m (acc @ [v]) = (rs, n')" by simp
    from a Some have "truthy v \<and> parsedReply rt orc m v" using analysisAttempt_source by blast
    with acc have "\<forall>x\<in>set (acc @ [v]). truthy x \<and> parsedReply rt orc m x" by auto
    from Suc.IH [OF run this] nm show ?thesis by simp
  qed
qed

lemma fallbackResult_shape:
  "fallbackResult rt results = Inr v \<Longrightarrow>
   \<exists>i<length results. \<exists>x. setProp (results ! i) ''assumptionsMade'' (JStr x) = Inr v"
proof -
  assume "fallbackResult rt results = Inr v"
  then obtain i where "findConsensusResultFallback rt results = Inr (i, v)"
    by (auto simp: fallbackResult_def split: sum.splits)
  from fallback_result_shape [OF this] show ?thesis by blast
qed

lemma withModel_shape:
  assumes "findConsensusResultWithModel rt orc n results = (Inr v, n')"
  shows "n \<le> n' \<and>
         ((\<exists>i<length results. \<exists>x. setProp (results ! i) ''assumptionsMade'' (JStr x) = Inr v) \<or>
          (\<exists>u x. truthy u \<and> parsedReply rt orc n' u \<and>
                 setProp u ''assumptionsMade'' (JStr x) = Inr v))"
proof (cases "orc n")
  case Throws
  with assms have "fallbackResult rt results = Inr v" "n' = Suc n"
    by (simp_all add: findConsensusResultWithModel_def)
  then show ?thesis using fallbackResult_shape by auto
next
  case (Replies t0)
  obtain u m where p: "processGeminiResponse rt orc (Suc n) t0 = (u, m)"
    by (cases "processGeminiResponse rt orc (Suc n) t0")
  from assms Replies p have m: "n' = m"
    by (auto simp: findConsensusResultWithModel_def split: if_splits sum.splits)
  have nm: "n < m"
    using p by (auto simp: processGeminiResponse_def validateJsonFormat_def
                     split: call.splits prod.splits sum.splits option.splits)
  show ?thesis
  proof (cases "fallbackResult rt results = Inr v")
    case True
    then show ?thesis using fallbackResult_shape m nm by auto
  next
    case False
    with assms Replies p have tr: "truthy u"
      and sp: "\<exists>x. setProp u ''assumptionsMade'' (JStr x) = Inr v"
      by (auto simp: findConsensusResultWithModel_def split: if_splits sum.splits)
    from processGeminiResponse_source [OF p tr] have m': "m = Suc (Suc n)" and
      src: "(\<exists>t. orc (Suc n) = Replies t \<and> parseJSON rt (cleanValidation t) = Some u) \<or>
            parseJSON rt (cleanResponse t0) = Some u" by auto
    from src have "parsedReply rt orc m u"
    proof
      assume "\<exists>t. orc (Suc n) = Replies t \<and> parseJSON rt (cleanValidation t) = Some u"
      then show ?thesis unfolding parsedReply_def m' by (intro exI [of _ "Suc n"]) auto
    next
      assume "parseJSON rt (cleanResponse t0) = Some u"
      with Replies show ?thesis unfolding parsedReply_def m' by (intro exI [of _ n]) auto
    qed
    with tr sp m nm show ?thesis by auto
  qed
qed

lemma errorResult_error: "getProp (errorResult msg) ''error'' = Inr (Some (JStr msg))"
  by (simp add: errorResult_def)

text \<open>
  C4 (amended). A run that resolves with a value whose error is undefined returns a truthy
  value that the parser made of a reply of the model in that run (of the reply to a
  validation prompt, or of the cleaned reply to an analysis or merge prompt), as it is or
  with only its assumptionsMade written; the error of that value is undefined and its items
  is the items of the returned value, which is therefore defined only when the reply
  defines it.
\<close>

theorem successful_result_is_parsed_reply:
  assumes run: "getCalorieBreakdown rt key orc = (Resolved v, n)"
    and ok: "getProp v ''error'' = Inr None"
  shows "\<exists>j t u. j < n \<and> orc j = Replies t \<and>
           (parseJSON rt (cleanValidation t) = Some u \<or> parseJSON rt (cleanResponse t) = Some u) \<and>
           truthy u \<and>
           (v = u \<or> (\<exists>x. setProp u ''assumptionsMade'' (JStr x) = Inr v)) \<and>
           getProp u ''error'' = Inr None \<and> getProp v ''items'' = getProp u ''items''"
proof -
  have ne: "v \<noteq> failedResult" "v \<noteq> notFoodResult" "v \<noteq> noValidResult"
    using ok errorResult_error by (auto simp: failedResult_def notFoodResult_def noValidResult_def)
  from run ne(1) have key: "keyPresent key"
    by (auto simp: getCalorieBreakdown_def split: if_splits)
  obtain isFood n1 where g: "validateFoodImage orc 0 = (isFood, n1)"
    by (cases "validateFoodImage orc 0")
  obtain rs n2 where r: "runAnalyses rt orc NUM_ANALYSES n1 [] = (rs, n2)"
    by (cases "runAnalyses rt orc NUM_ANALYSES n1 []")
  from run key g r ne(2,3) have c: "findConsensusResult rt key orc n2 rs = (Inr v, n)"
    by (auto simp: getCalorieBreakdown_def split: if_splits sum.splits prod.splits)
  have inv: "\<forall>x\<in>set rs. truthy x \<and> parsedReply rt orc n2 x"
    using runAnalyses_invariant [OF r] by simp
  have "n2 \<le> n \<and>
        ((\<exists>u\<in>set rs. v = u \<or> (\<exists>x. setProp u ''assumptionsMade'' (JStr x) = Inr v)) \<or>
         (\<exists>u x. truthy u \<and> parsedReply rt orc n u \<and> setProp u ''assumptionsMade'' (JStr x) = Inr v))"
  proof (cases "\<exists>r. rs = [r]")
    case True
    with c show ?thesis by (auto simp: findConsensusResult_def)
  next
    case False
    with c have "(fallbackResult rt rs = Inr v \<and> n = n2) \<or>
                 findConsensusResultWithModel rt orc n2 rs = (Inr v, n)"
      by (auto simp: findConsensusResult_def split: list.splits if_splits)
    then have "n2 \<le> n \<and>
        ((\<exists>i<length rs. \<exists>x. setProp (rs ! i) ''assumptionsMade'' (JStr x) = Inr v) \<or>
         (\<exists>u x. truthy u \<and> parsedReply rt orc n u \<and> setProp u ''assumptionsMade'' (JStr x) = Inr v))"
      using fallbackResult_shape withModel_shape by blast
    then show ?thesis using nth_mem by blast
  qed
  then have "\<exists>u. truthy u \<and> parsedReply rt orc n u \<and>
      (v = u \<or> (\<exists>x. setProp u ''assumptionsMade'' (JStr x) = Inr v))"
    using inv parsedReply_mono by blast
  then obtain u where u: "truthy u" "parsedReply rt orc n u"
    "v = u \<or> (\<exists>x. setProp u ''assumptionsMade'' (JStr x) = Inr v)" by blast
  have "getProp v ''error'' = getProp u ''error''" "getProp v ''items'' = getProp u ''items''"
    using u(3) setProp_frame [of u "''assumptionsMade''" _ v] by auto
  with u ok show ?thesis unfolding parsedReply_def by auto
qed

theorem successful_result_witness:
  \<open>getCalorieBreakdown exampleRuntime (Some ''key'') oneEmptyObject = (Resolved (JObj []), 7) \<and>
   getProp (JObj []) ''error'' = Inr None \<and>
   (\<exists>j t u. j < 7 \<and> oneEmptyObject j = Replies t \<and>
      (parseJSON exampleRuntime (cleanValidation t) = Some u \<or>
       parseJSON exampleRuntime (cleanResponse t) = Some u) \<and>
      truthy u \<and>
      (JObj [] = u \<or> (\<exists>x. setProp u ''assumptionsMade'' (JStr x) = Inr (JObj []))) \<and>
      getProp u ''error'' = Inr None \<and> getProp (JObj []) ''items'' = getProp u ''items'')\<close>
proof -
  have r: "getCalorieBreakdown exampleRuntime (Some ''key'') oneEmptyObject = (Resolved (JObj []), 7)"
    by code_simp
  have e: "getProp (JObj []) ''error'' = Inr None" by simp
  show ?thesis by (intro conjI r e successful_result_is_parsed_reply [OF r e])
qed

text \<open>
  The claim C4 as it is written fails: when the only sample that gets through is the text
  \<^verbatim>\<open>{}\<close>, the run resolves with an object that has neither error nor items.
\<close>

theorem successful_result_without_items:
  "getCalorieBreakdown exampleRuntime (Some ''key'') oneEmptyObject = (Resolved (JObj []), 7) \<and>
   getProp (JObj []) ''error'' = Inr None \<and> getProp (JObj []) ''items'' = Inr None"
  by code_simp

text \<open>
  C9. A run in which the promise of getCalorieBreakdown is rejected: two samples
  \<^verbatim>\<open>{"items":[null]}\<close> get through, the call of the merge throws, and in the reducer
  reading \<open>itemName\<close> of the null item throws a TypeError that nothing catches.
\<close>

theorem rejection_escapes:
  "getCalorieBreakdown exampleRuntime (Some ''key'') twoNullItems = (Rejected TypeError, 9) \<and>
   fst (runAnalyses exampleRuntime twoNullItems NUM_ANALYSES 1 []) =
     [JObj [(''items'', JArr [JNull] [])], JObj [(''items'', JArr [JNull] [])]] \<and>
   findConsensusResultFallback exampleRuntime
     [JObj [(''items'', JArr [JNull] [])], JObj [(''items'', JArr [JNull] [])]] = Inl TypeError"
  by code_simp

text \<open>
  C6. The gate answers true exactly when the reply, trimmed and then lower-cased, is the
  text "true"; when its call throws it answers true.
\<close>

theorem validateFoodImage_gate:
  "(orc n = Replies t \<longrightarrow> fst (validateFoodImage orc n) = (toLowerCase (trim t) = ''true'')) \<and>
   (orc n = Throws \<longrightarrow> fst (validateFoodImage orc n) = True)"
  by (simp add: validateFoodImage_def)

theorem validateFoodImage_gate_witness:
  "notFood 0 = Replies '' False  '' \<and> fst (validateFoodImage notFood 0) = False \<and>
   allThrow 0 = Replies ''true'' \<and> fst (validateFoodImage allThrow 0) = True \<and>
   allThrow 1 = Throws \<and> fst (validateFoodImage allThrow 1) = True"
proof -
  have a: "notFood 0 = Replies '' False  ''" "allThrow 0 = Replies ''true''" "allThrow 1 = Throws"
    by (simp_all add: notFood_def allThrow_def)
  have b: "toLowerCase (trim '' False  '') \<noteq> ''true''" "toLowerCase (trim ''true'') = ''true''"
    by code_simp+
  show ?thesis
    using a b validateFoodImage_gate [of notFood 0 "'' False  ''"]
      validateFoodImage_gate [of allThrow 0 "''true''"] validateFoodImage_gate [of allThrow 1 "[]"]
    by simp
qed

text \<open>
  C8. When the key is present and the gate answers false, the run resolves with the fixed
  not-a-food-photo result, zero calories and no items, after one call of the model, the
  gate's own: no sample is requested.
\<close>

theorem not_food_result:
  assumes "keyPresent key" and "\<not> fst (validateFoodImage orc 0)"
  shows "getCalorieBreakdown rt key orc =
           (Resolved (JObj [(''error'', JStr ''The uploaded image does not appear to be a food or meal photo. Please upload an image of your meal.''),
                            (''totalEstimatedCalories'', JNum (Fin 0)), (''items'', JArr [] [])]), 1)"
  using assms
  by (auto simp: getCalorieBreakdown_def validateFoodImage_def notFoodResult_def errorResult_def
           split: call.splits prod.splits)

theorem not_food_result_witness:
  "keyPresent (Some ''key'') \<and> \<not> fst (validateFoodImage notFood 0) \<and>
   getCalorieBreakdown exampleRuntime (Some ''key'') notFood =
           (Resolved (JObj [(''error'', JStr ''The uploaded image does not appear to be a food or meal photo. Please upload an image of your meal.''),
                            (''totalEstimatedCalories'', JNum (Fin 0)), (''items'', JArr [] [])]), 1)"
proof -
  have k: "keyPresent (Some ''key'')" by (simp add: keyPresent_def)
  have g: "\<not> fst (validateFoodImage notFood 0)" by code_simp
  show ?thesis using k g not_food_result [OF k g, of exampleRuntime] by simp
qed







end
